theory Spec2Isabelle
  imports Complex_Main
begin

section \<open>The discrete interpolator of LoopStructural\<close>

text \<open>
  A shallow embedding of \<^verbatim>\<open>LoopStructural/interpolators/_discrete_interpolator.py\<close>
  (class \<^verbatim>\<open>DiscreteInterpolator\<close>). Every method takes the interpolator as an explicit
  state and returns the state it leaves behind. An exception is a value of type \<open>error\<close>,
  and a call that never returns is \<open>None\<close>.
\<close>

subsection \<open>Floating-point values\<close>

text \<open>
  A NumPy \<^verbatim>\<open>float64\<close> is a finite number, one of the two infinities or NaN. A finite
  value is given by the real number it stands for. The arithmetic is that of IEEE 754
  binary64: the result of an operation is the exact result rounded to the nearest number
  with a significand of 53 bits, ties going to the even significand, so that a result too
  large becomes an infinity and a result too small becomes a subnormal number or zero. The
  sign of zero is not part of this model.
\<close>

datatype fl = Fin real | PInf | NInf | NaN

text \<open>Rounding a real to the nearest integer, ties to the even one.\<close>

definition round_even :: "real \<Rightarrow> int" where
  "round_even q =
     (let f = \<lfloor>q\<rfloor>
      in if q - of_int f < 1 / 2 then f
         else if 1 / 2 < q - of_int f then f + 1
         else if even f then f else f + 1)"

text \<open>
  Rounding a real to \<^verbatim>\<open>float64\<close>. The exponent \<open>e\<close> of the last bit of the
  significand is \<open>52\<close> below the exponent of the value, and never below \<open>-1074\<close>, the
  exponent of the subnormal numbers. The value is rounded to a multiple of \<open>2\<^sup>e\<close>; a
  result of magnitude \<open>2 ^ 1024\<close> is beyond the largest finite number and overflows.
\<close>

definition rnd64 :: "real \<Rightarrow> fl" where
  "rnd64 r =
     (if r = 0 then Fin 0
      else
        (let e = max (\<lfloor>log 2 \<bar>r\<bar>\<rfloor> - 52) (- 1074);
             y = of_int (round_even (r / 2 powr of_int e)) * 2 powr of_int e
         in if 2 ^ 1024 \<le> \<bar>y\<bar> then (if 0 < r then PInf else NInf) else Fin y))"

fun isnan :: "fl \<Rightarrow> bool" where
  "isnan NaN = True"
| "isnan _ = False"

text \<open>\<^verbatim>\<open>x == y\<close>: NaN is equal to nothing, itself included.\<close>

fun feq :: "fl \<Rightarrow> fl \<Rightarrow> bool" where
  "feq NaN _ = False"
| "feq _ NaN = False"
| "feq x y = (x = y)"

text \<open>\<^verbatim>\<open>x > 0\<close>\<close>

fun fgt0 :: "fl \<Rightarrow> bool" where
  "fgt0 (Fin r) = (0 < r)"
| "fgt0 PInf = True"
| "fgt0 NInf = False"
| "fgt0 NaN = False"

fun fadd :: "fl \<Rightarrow> fl \<Rightarrow> fl" where
  "fadd NaN _ = NaN"
| "fadd _ NaN = NaN"
| "fadd (Fin a) (Fin b) = rnd64 (a + b)"
| "fadd PInf NInf = NaN"
| "fadd NInf PInf = NaN"
| "fadd PInf _ = PInf"
| "fadd _ PInf = PInf"
| "fadd NInf _ = NInf"
| "fadd _ NInf = NInf"

text \<open>The sign of a non-NaN value: \<open>-1\<close>, \<open>0\<close> or \<open>1\<close>.\<close>

fun fsign :: "fl \<Rightarrow> int" where
  "fsign (Fin r) = (if r < 0 then - 1 else if r = 0 then 0 else 1)"
| "fsign PInf = 1"
| "fsign NInf = - 1"
| "fsign NaN = 0"

definition inf_of_sign :: "int \<Rightarrow> fl" where
  "inf_of_sign k = (if k = 0 then NaN else if 0 < k then PInf else NInf)"

fun fmul :: "fl \<Rightarrow> fl \<Rightarrow> fl" where
  "fmul NaN _ = NaN"
| "fmul _ NaN = NaN"
| "fmul (Fin a) (Fin b) = rnd64 (a * b)"
| "fmul x y = inf_of_sign (fsign x * fsign y)"

text \<open>
  NumPy division: a finite value over an infinity is zero, an infinity over an infinity
  is NaN, and division by zero gives an infinity (or NaN for \<open>0 / 0\<close>) without raising.
\<close>

fun fdiv :: "fl \<Rightarrow> fl \<Rightarrow> fl" where
  "fdiv NaN _ = NaN"
| "fdiv _ NaN = NaN"
| "fdiv (Fin a) (Fin b) = (if b = 0 then inf_of_sign (fsign (Fin a)) else rnd64 (a / b))"
| "fdiv (Fin a) _ = Fin 0"
| "fdiv x (Fin b) = (if b = 0 then x else inf_of_sign (fsign x * fsign (Fin b)))"
| "fdiv _ _ = NaN"

fun fsqrt :: "fl \<Rightarrow> fl" where
  "fsqrt (Fin r) = (if r < 0 then NaN else rnd64 (sqrt r))"
| "fsqrt PInf = PInf"
| "fsqrt NInf = NaN"
| "fsqrt NaN = NaN"

text \<open>
  \<^verbatim>\<open>np.linalg.norm(A, axis=1)\<close> is a library routine: it returns, for every row, the
  root of the sum of the squares, and the order in which it adds the squares (which the
  last bit of the result depends on) is its own. The interpolator is therefore modelled for
  a given function \<open>linalg_norm\<close> from a row to its norm. \<open>row_norm\<close> is one such
  function, which adds the squares from left to right; on the rows of the examples below
  every sum is exact, so that the order does not matter there.
\<close>

definition row_norm :: "fl list \<Rightarrow> fl" where
  "row_norm row = fsqrt (foldl fadd (Fin 0) (map (\<lambda>x. fmul x x) row))"

subsection \<open>Errors and NumPy helpers\<close>

datatype error = IndexError | ValueError | AxisError | BaseException

text \<open>The bind of the exception monad: the first raise ends the computation.\<close>

definition ebind :: "error + 'a \<Rightarrow> ('a \<Rightarrow> error + 'b) \<Rightarrow> error + 'b" where
  "ebind m f = (case m of Inl e \<Rightarrow> Inl e | Inr x \<Rightarrow> f x)"

text \<open>
  \<^verbatim>\<open>target[mask] = values\<close> with a boolean mask as long as the target: the selected
  slots take the values in order. The caller checks that the values fit.
\<close>

fun masked_set :: "bool list \<Rightarrow> 'a list \<Rightarrow> 'a list \<Rightarrow> 'a list" where
  "masked_set (m # ms) (t # ts) vs =
     (if m then (case vs of [] \<Rightarrow> t # masked_set ms ts [] | v # vs' \<Rightarrow> v # masked_set ms ts vs')
      else t # masked_set ms ts vs)"
| "masked_set _ ts _ = ts"

text \<open>\<^verbatim>\<open>xs[mask]\<close>: the entries selected by a boolean mask of the same length.\<close>

definition masked_get :: "bool list \<Rightarrow> 'a list \<Rightarrow> 'a list" where
  "masked_get msk xs = map snd (filter fst (zip msk xs))"

text \<open>
  \<^verbatim>\<open>xs[i]\<close> with an integer \<open>i\<close> on an array of \<open>n\<close> entries: the positions
  \<open>0 .. n - 1\<close> are read as they are, the positions \<open>-n .. -1\<close> are read from the
  end, and every other position raises IndexError.
\<close>

definition np_index :: "'a list \<Rightarrow> int \<Rightarrow> error + 'a" where
  "np_index xs i =
     (if 0 \<le> i \<and> i < int (length xs) then Inr (xs ! nat i)
      else if - int (length xs) \<le> i \<and> i < 0 then Inr (xs ! nat (int (length xs) + i))
      else Inl IndexError)"

text \<open>\<^verbatim>\<open>xs[idx]\<close> with an integer array: one lookup per index, the first failure raises.\<close>

fun np_take :: "'a list \<Rightarrow> int list \<Rightarrow> error + 'a list" where
  "np_take xs [] = Inr []"
| "np_take xs (i # is) =
     ebind (np_index xs i) (\<lambda>x. ebind (np_take xs is) (\<lambda>ys. Inr (x # ys)))"

subsection \<open>The support and the interpolator\<close>

text \<open>
  The support is an external collaborator. The interpolator reads its \<^verbatim>\<open>nodes\<close>
  (one row of coordinates per node) and calls its evaluation kernels, which are taken here
  as given functions of the query points and the solution vector.
\<close>

type_synonym point = "fl list"

record support =
  nodes :: "point list"
  sup_evaluate_value :: "point list \<Rightarrow> fl list \<Rightarrow> fl list"
  sup_evaluate_gradient :: "point list \<Rightarrow> fl list \<Rightarrow> fl list list"

definition n_nodes :: "support \<Rightarrow> nat" where
  "n_nodes sp = length (nodes sp)"

text \<open>
  A sparse matrix in coordinate form: its shape and its \<open>(row, column, value)\<close> triples.
  As in SciPy, triples with the same position stand for the sum of their values.
\<close>

record spmat =
  nrows :: nat
  ncols :: nat
  entries :: "(nat \<times> nat \<times> fl) list"

text \<open>
  The values given for position \<open>(i, j)\<close>, in the order of the triples, and their sum
  (\<open>None\<close> when the position holds nothing). The values are added here in the order of
  the triples; SciPy does not say in which order it adds them, which matters for the last
  bit of a sum of three values or more.
\<close>

definition sp_at :: "spmat \<Rightarrow> nat \<Rightarrow> nat \<Rightarrow> fl list" where
  "sp_at m i j =
     map (\<lambda>e. snd (snd e)) (filter (\<lambda>e. fst e = i \<and> fst (snd e) = j) (entries m))"

fun sum_dups :: "fl list \<Rightarrow> fl option" where
  "sum_dups [] = None"
| "sum_dups (v # vs) = Some (foldl fadd v vs)"

text \<open>
  \<^verbatim>\<open>m.tocsc()\<close> and \<^verbatim>\<open>m.tocsr()\<close>: the compressed formats hold one value per
  position, the sum of the values given for it, column by column or row by row. A sum that
  is zero stays stored.
\<close>

definition sum_duplicates :: "(nat \<times> nat) list \<Rightarrow> spmat \<Rightarrow> (nat \<times> nat \<times> fl) list" where
  "sum_duplicates ps m =
     concat (map (\<lambda>p. case sum_dups (sp_at m (fst p) (snd p)) of
                          None \<Rightarrow> []
                        | Some v \<Rightarrow> [(fst p, snd p, v)]) ps)"

definition tocsc :: "spmat \<Rightarrow> spmat" where
  "tocsc m =
     m\<lparr>entries :=
         sum_duplicates (concat (map (\<lambda>j. map (\<lambda>i. (i, j)) [0 ..< nrows m]) [0 ..< ncols m])) m\<rparr>"

definition tocsr :: "spmat \<Rightarrow> spmat" where
  "tocsr m =
     m\<lparr>entries :=
         sum_duplicates (concat (map (\<lambda>i. map (\<lambda>j. (i, j)) [0 ..< ncols m]) [0 ..< nrows m])) m\<rparr>"

text \<open>Row \<open>i\<close> of \<^verbatim>\<open>m.toarray()\<close>: a position that holds nothing reads as zero.\<close>

definition toarray_row :: "spmat \<Rightarrow> nat \<Rightarrow> fl list" where
  "toarray_row m i =
     map (\<lambda>j. case sum_dups (sp_at m i j) of None \<Rightarrow> Fin 0 | Some v \<Rightarrow> v) [0 ..< ncols m]"

text \<open>A registered soft constraint: \<^verbatim>\<open>{'matrix': ..., 'b': ..., 'w': ...}\<close>.\<close>

record block =
  matrix :: spmat
  b :: "fl list"
  w :: "fl list"

text \<open>A registered equality constraint: \<^verbatim>\<open>{"A": ..., "B": ..., "col": ..., "row": ...}\<close>.\<close>

record eq_block =
  eqA :: "fl list"
  eqB :: "fl list"
  eq_col :: "int list"
  eq_row :: "nat list"

text \<open>
  The \<^verbatim>\<open>solver\<close> argument: \<^verbatim>\<open>None\<close>, a callable on the assembled matrix and
  right-hand side, or a strategy name.
\<close>

datatype solver_arg =
  NoSolver
  | Custom "spmat \<Rightarrow> fl list \<Rightarrow> fl list"
  | Named string

datatype level = Warning | Error

text \<open>
  The interpolator. \<open>region_function\<close> is the region predicate; the source applies it
  to the array of all node positions and reads one boolean per node, which is modelled as
  a predicate on one position applied to every node. \<open>logged\<close> holds the warnings and errors sent to the logger, oldest first (info
  and debug messages are not recorded). \<open>solves\<close> counts the calls made to a solver
  backend (the callable, \<^verbatim>\<open>sparse.linalg.cg\<close> or \<^verbatim>\<open>sparse.linalg.lsmr\<close>).
\<close>

record interp =
  support :: support
  region_function :: "point \<Rightarrow> bool"
  c :: "fl list"
  up_to_date :: bool
  solver :: solver_arg
  constraints :: "(string \<times> block) list"
  equal_constraints :: "(string \<times> eq_block) list"
  eq_const_c :: nat
  c_ :: nat
  logged :: "(level \<times> string) list"
  solves :: nat

definition logger :: "level \<Rightarrow> string \<Rightarrow> interp \<Rightarrow> interp" where
  "logger lv msg s = s\<lparr>logged := logged s @ [(lv, msg)]\<rparr>"

text \<open>
  A Python dict keeps its keys in insertion order: \<^verbatim>\<open>d[k] = v\<close> replaces the value
  of a key already present where it stands and appends a new key at the end.
\<close>

fun dict_set :: "'k \<Rightarrow> 'v \<Rightarrow> ('k \<times> 'v) list \<Rightarrow> ('k \<times> 'v) list" where
  "dict_set k v [] = [(k, v)]"
| "dict_set k v (p # ps) = (if fst p = k then (k, v) # ps else p # dict_set k v ps)"

subsection \<open>The region and its index maps\<close>

text \<open>\<^verbatim>\<open>self.region\<close>: the boolean mask of the active nodes.\<close>

definition region :: "interp \<Rightarrow> bool list" where
  "region s = map (region_function s) (nodes (support s))"

text \<open>\<^verbatim>\<open>self.nx\<close>: \<^verbatim>\<open>len(self.support.nodes[self.region])\<close>.\<close>

definition nx :: "interp \<Rightarrow> nat" where
  "nx s = length (masked_get (region s) (nodes (support s)))"

text \<open>
  \<^verbatim>\<open>self.region_map\<close>: an array of zeros in which the active slots receive
  \<^verbatim>\<open>0, 1, 2, ...\<close>.
\<close>

definition region_map :: "interp \<Rightarrow> int list" where
  "region_map s =
     (let region_map = replicate (n_nodes (support s)) (0::int)
      in masked_set (region s) region_map
           (map int [0 ..< length (masked_get (region s) region_map)]))"

text \<open>
  The map \<^verbatim>\<open>gi\<close> built by \<^verbatim>\<open>add_equality_constraints\<close>: an array of \<open>-1\<close>
  in which the active slots receive \<^verbatim>\<open>0 .. nx - 1\<close>.
\<close>

definition gi :: "interp \<Rightarrow> int list" where
  "gi s = masked_set (region s) (replicate (n_nodes (support s)) (- 1)) (map int [0 ..< nx s])"

subsection \<open>Arrays and strings\<close>

text \<open>
  A NumPy array: its shape and its entries in row-major order. Every array built by
  \<^verbatim>\<open>np.array\<close> has as many entries as its shape says (\<open>wf_array\<close>).
\<close>

record 'a ndarray =
  shape :: "nat list"
  data :: "'a list"

definition wf_array :: "'a ndarray \<Rightarrow> bool" where
  "wf_array a = (length (data a) = prod_list (shape a))"

text \<open>The rows of the entries of an array of shape \<open>(R, C)\<close>.\<close>

definition rows2 :: "nat \<Rightarrow> nat \<Rightarrow> 'a list \<Rightarrow> 'a list list" where
  "rows2 R C xs = map (\<lambda>i. take C (drop (i * C) xs)) [0 ..< R]"

text \<open>\<^verbatim>\<open>s.split(sep)\<close> for a separator of one character.\<close>

fun split_on :: "char \<Rightarrow> string \<Rightarrow> string list" where
  "split_on d [] = [[]]"
| "split_on d (x # xs) =
     (if x = d then [] # split_on d xs
      else (case split_on d xs of [] \<Rightarrow> [[x]] | p # ps \<Rightarrow> (x # p) # ps))"

text \<open>
  The characters that \<^verbatim>\<open>int\<close> takes as white space, among the code points below
  \<open>256\<close>: tab, line feed, vertical tab, form feed, carriage return and space, and the two
  spaces beyond ASCII, next line (\<open>0x85\<close>) and no-break space (\<open>0xA0\<close>), which are
  turned into a space before the number is read.
\<close>

definition is_space :: "char \<Rightarrow> bool" where
  "is_space ch = ((of_char ch :: nat) \<in> {9, 10, 11, 12, 13, 32, 133, 160})"

definition is_digit :: "char \<Rightarrow> bool" where
  "is_digit ch = (48 \<le> (of_char ch :: nat) \<and> (of_char ch :: nat) \<le> 57)"

definition strip :: "string \<Rightarrow> string" where
  "strip s = rev (dropWhile is_space (rev (dropWhile is_space s)))"

definition digits_value :: "string \<Rightarrow> int option" where
  "digits_value ds =
     (if ds \<noteq> [] \<and> list_all is_digit ds
      then Some (foldl (\<lambda>acc ch. 10 * acc + (int (of_char ch) - 48)) 0 ds)
      else None)"

text \<open>
  \<^verbatim>\<open>int(s)\<close> on a string without underscores: surrounding white space is dropped, a
  sign is allowed, and the rest must be decimal digits. \<open>None\<close> stands for ValueError.
\<close>

definition py_int :: "string \<Rightarrow> int option" where
  "py_int s =
     (case strip s of
        [] \<Rightarrow> None
      | x # r \<Rightarrow>
          if x = CHR ''-'' then map_option uminus (digits_value r)
          else if x = CHR ''+'' then digits_value r
          else digits_value (x # r))"

fun str_of_nat :: "nat \<Rightarrow> string" where
  "str_of_nat n =
     (if n < 10 then [''0123456789'' ! n]
      else str_of_nat (n div 10) @ [''0123456789'' ! (n mod 10)])"

text \<open>\<^verbatim>\<open>"{}".format(k)\<close> for an integer.\<close>

definition str_of_int :: "int \<Rightarrow> string" where
  "str_of_int k = (if k < 0 then CHR ''-'' # str_of_nat (nat (- k)) else str_of_nat (nat k))"

subsection \<open>Soft constraints\<close>

text \<open>
  \<^verbatim>\<open>sparse.coo_matrix((values, (rows, cols)), shape=...)\<close>: the three arrays must be
  equally long and every index must lie inside the shape, or ValueError is raised.
\<close>

definition coo_matrix :: "fl list \<Rightarrow> int list \<Rightarrow> int list \<Rightarrow> nat \<times> nat \<Rightarrow> error + spmat" where
  "coo_matrix vals rws cls shp =
     (if length rws \<noteq> length vals \<or> length cls \<noteq> length vals then Inl ValueError
      else if list_ex (\<lambda>r. r < 0 \<or> int (fst shp) \<le> r) rws then Inl ValueError
      else if list_ex (\<lambda>k. k < 0 \<or> int (snd shp) \<le> k) cls then Inl ValueError
      else Inr \<lparr>nrows = fst shp, ncols = snd shp,
                entries = zip (map nat rws) (zip (map nat cls) vals)\<rparr>)"

text \<open>
  Lines 186 to 191 on the rows of \<^verbatim>\<open>A\<close>: the norm of every row, the entries of
  \<^verbatim>\<open>B\<close> selected by the mask \<^verbatim>\<open>length > 0\<close> divided by the positive norms, the
  rows holding a NaN set to zero, and the rows of positive norm divided by their norm. The
  entries of \<^verbatim>\<open>B\<close> that the mask does not reach are left as they are; the caller
  rules out the masks that NumPy rejects.
\<close>

definition normalise_rows ::
  "(fl list \<Rightarrow> fl) \<Rightarrow> fl list list \<Rightarrow> fl list \<Rightarrow> fl list list \<times> fl list" where
  "normalise_rows linalg_norm A B =
     (let len = map linalg_norm A;
          B' = map2 (\<lambda>l x. if fgt0 l then fdiv x l else x) len B @ drop (length len) B;
          msk = map (list_ex isnan) A;
          A1 = map2 (\<lambda>m row. if m then map (\<lambda>_. Fin 0) row else row) msk A;
          A2 = map2 (\<lambda>l row. if fgt0 l then map (\<lambda>x. fdiv x l) row else row) len A1
      in (A2, B'))"

text \<open>
  The coefficients of a row that were given for column \<open>j\<close>, in the order of the row.
\<close>

definition at_column :: "int list \<Rightarrow> fl list \<Rightarrow> nat \<Rightarrow> fl list" where
  "at_column cols row j = map snd (filter (\<lambda>p. fst p = int j) (zip cols row))"

text \<open>
  The weight argument: a Python number, a NumPy array of one dimension, or anything else.
\<close>

datatype weight = WScalar fl | WArray "fl list" | WOther

text \<open>Lines 192 to 201: the weight as an array with one entry per row.\<close>

definition weight_array :: "weight \<Rightarrow> nat \<Rightarrow> error + fl list" where
  "weight_array wt n =
     ebind (case wt of
              WScalar x \<Rightarrow> Inr (map (\<lambda>one. fmul one x) (replicate n (Fin 1)))
            | WArray xs \<Rightarrow> Inr xs
            | WOther \<Rightarrow> Inl BaseException)
       (\<lambda>ws. if length ws \<noteq> n then Inl BaseException else Inr ws)"

text \<open>
  Lines 206 to 211, the loop that looks for a free name. \<open>keys\<close> are the names in the
  registry. The loop returns the name it settles on, raises ValueError when \<^verbatim>\<open>int\<close>
  rejects the piece after the first underscore, or runs forever.
\<close>

partial_function (option) unique_name :: "string list \<Rightarrow> string \<Rightarrow> string \<Rightarrow> (error + string) option" where
  "unique_name keys base_name name =
     (if name \<in> set keys then
        (if CHR ''_'' \<in> set name then
           (case split_on CHR ''_'' name of
              p0 # p1 # ps \<Rightarrow>
                (case py_int p1 of
                   None \<Rightarrow> Some (Inl ValueError)
                 | Some k \<Rightarrow> unique_name keys base_name (base_name @ ''_'' @ str_of_int (k + 1)))
            | _ \<Rightarrow> Some (Inl IndexError))
         else unique_name keys base_name (base_name @ ''_'' @ str_of_int 0))
      else Some (Inr name))"

declare unique_name.simps [code]

text \<open>
  Lines 170 to 184: the number of rows and of columns of \<^verbatim>\<open>A\<close> seen as a matrix,
  and the weight, tiled when \<^verbatim>\<open>A\<close> has more than two dimensions. An array without
  dimension has no \<^verbatim>\<open>shape[0]\<close>, an array of one dimension has no axis 1, and a
  reshape to another number of entries raises ValueError.
\<close>

definition flatten_block :: "nat list \<Rightarrow> nat \<Rightarrow> weight \<Rightarrow> error + nat \<times> nat \<times> weight" where
  "flatten_block shp lenB wt =
     (case shp of
        [] \<Rightarrow> Inl IndexError
      | [s0] \<Rightarrow> Inl AxisError
      | [s0, s1] \<Rightarrow> Inr (s0, s1, wt)
      | s0 # s1 # s2 # rest \<Rightarrow>
          if prod_list shp \<noteq> s0 * s1 * s2 then Inl ValueError
          else if lenB \<noteq> s0 * s1 then Inl ValueError
          else Inr (s0 * s1, s2,
                    (case wt of WArray xs \<Rightarrow> WArray (concat (replicate s1 xs)) | _ \<Rightarrow> wt)))"

text \<open>
  \<^verbatim>\<open>np.tile(np.arange(n_rows), (C, 1)).T.flatten()\<close>: the row index of every entry
  of a matrix of \<open>C\<close> columns, in row-major order.
\<close>

definition row_index :: "nat \<Rightarrow> nat \<Rightarrow> int list" where
  "row_index n_rows C = concat (map (\<lambda>i. replicate C (int i)) [0 ..< n_rows])"

text \<open>
  Lines 202 to 204: a NaN left in \<^verbatim>\<open>idc\<close>, \<^verbatim>\<open>A\<close> or \<^verbatim>\<open>B\<close> is reported
  by a warning. \<^verbatim>\<open>np.isnan\<close> of an integer is false.
\<close>

definition warn_nan :: "string \<Rightarrow> int list \<Rightarrow> fl list list \<Rightarrow> fl list \<Rightarrow> interp \<Rightarrow> interp" where
  "warn_nan name idc A B s =
     (if list_ex (\<lambda>k. False) idc \<or> list_ex (list_ex isnan) A \<or> list_ex isnan B
      then logger Warning (''Constraints contain nan not adding constraints: '' @ name) s
      else s)"

text \<open>
  \<^verbatim>\<open>add_constraints_to_least_squares(A, B, idc, w, name)\<close>. \<^verbatim>\<open>B\<close> is an array of
  one dimension and \<^verbatim>\<open>idc\<close> an array of integers, for which \<^verbatim>\<open>np.isnan\<close> is
  false everywhere. The mask \<^verbatim>\<open>length > 0\<close> has one entry per row; NumPy raises
  IndexError when it is applied to a \<^verbatim>\<open>B\<close> of another length, unless the mask is
  empty, which selects nothing from an array of any length. The \<^verbatim>\<open>return\<close> that
  followed the NaN warning is commented out in the source, so the method goes on after
  the warning. The matrix is stored in compressed column form.
\<close>

definition add_constraints_to_least_squares ::
  "(fl list \<Rightarrow> fl) \<Rightarrow> fl ndarray \<Rightarrow> fl list \<Rightarrow> int ndarray \<Rightarrow> weight \<Rightarrow> string \<Rightarrow> interp
    \<Rightarrow> (error + interp) option" where
  "add_constraints_to_least_squares linalg_norm A B idc wt name s =
     (if shape A = [] then Some (Inl IndexError)
      else if shape A \<noteq> shape idc then
        Some (Inr (logger Error (''Cannot add constraints: A and indexes have different shape : '' @ name) s))
      else
        (case flatten_block (shape A) (length B) wt of
           Inl e \<Rightarrow> Some (Inl e)
         | Inr (n_rows, C, wt') \<Rightarrow>
             if n_rows \<noteq> 0 \<and> length B \<noteq> n_rows then Some (Inl IndexError)
             else
               (let (A', B') = normalise_rows linalg_norm (rows2 n_rows C (data A)) B
                in case weight_array wt' n_rows of
                     Inl e \<Rightarrow> Some (Inl e)
                   | Inr ws \<Rightarrow>
                       (let s1 = warn_nan name (data idc) A' B' s;
                            rws = row_index n_rows C
                        in case unique_name (map fst (constraints s1)) name name of
                             None \<Rightarrow> None
                           | Some (Inl e) \<Rightarrow> Some (Inl e)
                           | Some (Inr name') \<Rightarrow>
                               (case coo_matrix (concat A') rws (data idc) (n_rows, nx s1) of
                                  Inl e \<Rightarrow> Some (Inl e)
                                | Inr m \<Rightarrow>
                                    Some (Inr (s1\<lparr>constraints :=
                                      dict_set name' \<lparr>matrix = tocsc m, b = B', w = ws\<rparr>
                                        (constraints s1)\<rparr>)))))))"

text \<open>\<^verbatim>\<open>reset\<close>: the soft constraints and the row counter are cleared.\<close>

definition reset :: "interp \<Rightarrow> interp" where
  "reset s = s\<lparr>constraints := [], c_ := 0\<rparr>"

subsection \<open>Assembling the matrix\<close>

text \<open>
  \<^verbatim>\<open>m.multiply(ws[:, None])\<close>: every stored entry is multiplied by the weight of its
  row. \<^verbatim>\<open>xs * ws\<close> multiplies two vectors entry by entry. Both are modelled for
  operands of matching length, which is what a registered block has; any other pair of
  lengths is reported as ValueError (NumPy's broadcasting of an operand of length one is
  not modelled).
\<close>

definition sp_multiply :: "spmat \<Rightarrow> fl list \<Rightarrow> error + spmat" where
  "sp_multiply m ws =
     (if length ws = nrows m
      then Inr (m\<lparr>entries := map (\<lambda>(i, j, v). (i, j, fmul v (ws ! i))) (entries m)\<rparr>)
      else Inl ValueError)"

definition vec_multiply :: "fl list \<Rightarrow> fl list \<Rightarrow> error + fl list" where
  "vec_multiply xs ws =
     (if length xs = length ws then Inr (map2 fmul xs ws) else Inl ValueError)"

text \<open>The triples of a stack of matrices, each block moved down by the rows above it.\<close>

fun stack_entries :: "nat \<Rightarrow> spmat list \<Rightarrow> (nat \<times> nat \<times> fl) list" where
  "stack_entries off [] = []"
| "stack_entries off (m # ms) =
     map (\<lambda>(i, j, v). (off + i, j, v)) (entries m) @ stack_entries (off + nrows m) ms"

text \<open>
  \<^verbatim>\<open>sparse.vstack(mats)\<close>: ValueError on an empty list and on blocks that differ in
  their number of columns.
\<close>

definition sp_vstack :: "spmat list \<Rightarrow> error + spmat" where
  "sp_vstack mats =
     (case mats of
        [] \<Rightarrow> Inl ValueError
      | m # ms \<Rightarrow>
          if list_all (\<lambda>m'. ncols m' = ncols m) ms
          then Inr \<lparr>nrows = sum_list (map nrows mats), ncols = ncols m,
                    entries = stack_entries 0 mats\<rparr>
          else Inl ValueError)"

text \<open>\<^verbatim>\<open>np.hstack(bs)\<close> on vectors: ValueError on an empty list.\<close>

definition np_hstack :: "fl list list \<Rightarrow> error + fl list" where
  "np_hstack bs = (case bs of [] \<Rightarrow> Inl ValueError | _ \<Rightarrow> Inr (concat bs))"

text \<open>The loop of \<^verbatim>\<open>build_matrix\<close> over the registered blocks, in the order of the dict.\<close>

fun build_blocks :: "block list \<Rightarrow> error + spmat list \<times> fl list list" where
  "build_blocks [] = Inr ([], [])"
| "build_blocks (blk # rest) =
     (if length (w blk) = 0 then build_blocks rest
      else ebind (sp_multiply (matrix blk) (w blk)) (\<lambda>m.
           ebind (vec_multiply (b blk) (w blk)) (\<lambda>v.
           ebind (build_blocks rest) (\<lambda>(mats, bs). Inr (m # mats, v # bs)))))"

definition build_matrix :: "interp \<Rightarrow> error + spmat \<times> fl list" where
  "build_matrix s =
     ebind (build_blocks (map snd (constraints s))) (\<lambda>(mats, bs).
     ebind (sp_vstack mats) (\<lambda>A.
     ebind (np_hstack bs) (\<lambda>B. Inr (A, B))))"

subsection \<open>Equality constraints\<close>

text \<open>
  The position an index \<open>i\<close> reads in an array of \<open>n\<close> entries, counted from the end
  when \<open>i\<close> is negative.
\<close>

definition position :: "nat \<Rightarrow> int \<Rightarrow> nat" where
  "position n i = nat (if i < 0 then int n + i else i)"

text \<open>
  \<^verbatim>\<open>add_equality_constraints(node_idx, values, name)\<close>. The mask \<^verbatim>\<open>outside\<close>
  has one entry per node index; NumPy raises IndexError when it is applied to
  \<^verbatim>\<open>values\<close> of another length, unless the mask is empty, which selects nothing from
  an array of any length.
\<close>

definition add_equality_constraints :: "int list \<Rightarrow> fl list \<Rightarrow> string \<Rightarrow> interp \<Rightarrow> error + interp" where
  "add_equality_constraints node_idx values name s =
     ebind (np_take (gi s) node_idx) (\<lambda>idc.
       let outside = map (\<lambda>k. \<not> (k = - 1)) idc;
           k = length (masked_get outside idc)
       in if outside \<noteq> [] \<and> length values \<noteq> length outside then Inl IndexError
          else Inr (s\<lparr>equal_constraints :=
                        dict_set name
                          \<lparr>eqA = replicate k (Fin 1),
                           eqB = masked_get outside values,
                           eq_col = masked_get outside idc,
                           eq_row = [eq_const_c s ..< eq_const_c s + k]\<rparr>
                          (equal_constraints s),
                      eq_const_c := eq_const_c s + k\<rparr>))"

text \<open>
  \<^verbatim>\<open>m.T\<close>, \<^verbatim>\<open>m1.dot(m2)\<close> and \<^verbatim>\<open>m.dot(v)\<close> on stored entries. A product of two
  matrices keeps one triple per pair of entries that meet, and a product with a vector
  adds the terms of a row in the order of the triples.
\<close>

definition sp_transpose :: "spmat \<Rightarrow> spmat" where
  "sp_transpose m =
     \<lparr>nrows = ncols m, ncols = nrows m, entries = map (\<lambda>(i, j, v). (j, i, v)) (entries m)\<rparr>"

definition sp_dot :: "spmat \<Rightarrow> spmat \<Rightarrow> error + spmat" where
  "sp_dot m1 m2 =
     (if ncols m1 \<noteq> nrows m2 then Inl ValueError
      else Inr \<lparr>nrows = nrows m1, ncols = ncols m2,
                entries = concat (map (\<lambda>(i, j, v).
                            map (\<lambda>(j', k, u). (i, k, fmul v u))
                              (filter (\<lambda>(j', k, u). j' = j) (entries m2))) (entries m1))\<rparr>)"

definition sp_dot_vec :: "spmat \<Rightarrow> fl list \<Rightarrow> error + fl list" where
  "sp_dot_vec m v =
     (if ncols m \<noteq> length v then Inl ValueError
      else Inr (map (\<lambda>i. foldr fadd
                    (map (\<lambda>(i', j, x). fmul x (v ! j)) (filter (\<lambda>(i', j, x). i' = i) (entries m)))
                    (Fin 0)) [0 ..< nrows m]))"

text \<open>
  The matrix \<^verbatim>\<open>C\<close> and the vector \<^verbatim>\<open>d\<close> that \<^verbatim>\<open>add_equality_block\<close>
  collects from the registered equality constraints: entries with coefficient zero are
  left out of \<^verbatim>\<open>C\<close>, and \<^verbatim>\<open>C\<close> has \<^verbatim>\<open>eq_const_c\<close> rows and \<^verbatim>\<open>nx\<close> columns
  and is stored in compressed row form.
\<close>

definition equality_entries :: "eq_block \<Rightarrow> fl list \<times> int list \<times> int list" where
  "equality_entries e =
     (let keep = map (\<lambda>x. \<not> feq x (Fin 0)) (eqA e)
      in (masked_get keep (eqA e), masked_get keep (map int (eq_row e)),
          masked_get keep (eq_col e)))"

definition equality_C :: "interp \<Rightarrow> error + spmat" where
  "equality_C s =
     (let es = map (equality_entries \<circ> snd) (equal_constraints s)
      in ebind (coo_matrix (concat (map fst es)) (concat (map (fst \<circ> snd) es))
                  (concat (map (snd \<circ> snd) es)) (eq_const_c s, nx s))
           (\<lambda>m. Inr (tocsr m)))"

definition equality_d :: "interp \<Rightarrow> fl list" where
  "equality_d s = concat (map (eqB \<circ> snd) (equal_constraints s))"

text \<open>
  \<^verbatim>\<open>sparse.bmat([[M, Ct], [C, None]])\<close>: the blocks of one block row must agree in
  their rows and the blocks of one block column in their columns.
\<close>

definition sp_bmat :: "spmat \<Rightarrow> spmat \<Rightarrow> spmat \<Rightarrow> error + spmat" where
  "sp_bmat M Ct C =
     (if nrows M \<noteq> nrows Ct \<or> ncols M \<noteq> ncols C then Inl ValueError
      else Inr \<lparr>nrows = nrows M + nrows C, ncols = ncols M + ncols Ct,
                entries = entries M
                  @ map (\<lambda>(i, j, v). (i, ncols M + j, v)) (entries Ct)
                  @ map (\<lambda>(i, j, v). (nrows M + i, j, v)) (entries C)\<rparr>)"

text \<open>
  \<^verbatim>\<open>add_equality_block(A, B)\<close>: the bordered system, or \<^verbatim>\<open>None\<close> when no
  equality constraint is registered.
\<close>

definition add_equality_block :: "spmat \<Rightarrow> fl list \<Rightarrow> interp \<Rightarrow> error + (spmat \<times> fl list) option" where
  "add_equality_block A B s =
     (if length (equal_constraints s) > 0 then
        ebind (sp_dot (sp_transpose A) A) (\<lambda>ATA.
        ebind (sp_dot_vec (sp_transpose A) B) (\<lambda>ATB.
        ebind (equality_C s) (\<lambda>C.
        ebind (sp_bmat ATA (sp_transpose C) C) (\<lambda>ATA'.
          Inr (Some (ATA', ATB @ equality_d s))))))
      else Inr None)"

subsection \<open>Solving\<close>

text \<open>
  The numeric backends are external: \<^verbatim>\<open>sparse.linalg.cg\<close> and
  \<^verbatim>\<open>sparse.linalg.lsmr\<close> are given functions of the system and the keyword
  arguments, returning the solution and the termination code (\<^verbatim>\<open>res[0]\<close> and
  \<^verbatim>\<open>res[1]\<close>).
\<close>

type_synonym kwargs = "(string \<times> fl) list"

record backend =
  sparse_linalg_cg :: "spmat \<Rightarrow> fl list \<Rightarrow> kwargs \<Rightarrow> fl list \<times> int"
  sparse_linalg_lsmr :: "spmat \<Rightarrow> fl list \<Rightarrow> kwargs \<Rightarrow> fl list \<times> int"

definition solve_cg :: "backend \<Rightarrow> kwargs \<Rightarrow> spmat \<Rightarrow> fl list \<Rightarrow> interp \<Rightarrow> error + bool \<times> interp" where
  "solve_cg bk kw A B s =
     ebind (sp_dot (sp_transpose A) A) (\<lambda>ATA.
     ebind (sp_dot_vec (sp_transpose A) B) (\<lambda>ATB.
       let res = sparse_linalg_cg bk ATA ATB kw;
           s1 = s\<lparr>solves := solves s + 1\<rparr>;
           s2 = (if snd res > 0
                 then logger Warning
                        (''CG reached iteration limit ('' @ str_of_int (snd res)
                          @ '')and did not converge, check input data. Setting solution to last iteration'')
                        s1
                 else s1)
       in Inr (True, s2\<lparr>c := fst res, up_to_date := True\<rparr>)))"

definition solve_lsmr :: "backend \<Rightarrow> kwargs \<Rightarrow> spmat \<Rightarrow> fl list \<Rightarrow> interp \<Rightarrow> error + bool \<times> interp" where
  "solve_lsmr bk kw A B s =
     (let res = sparse_linalg_lsmr bk A B kw;
          s1 = s\<lparr>solves := solves s + 1\<rparr>;
          s2 = (if snd res = 1 \<or> snd res = 4 \<or> snd res = 2 \<or> snd res = 5 then s1\<lparr>c := fst res\<rparr>
                else if snd res = 0 then
                  logger Warning
                    ''Solution to least squares problem is all zeros, check input data'' s1
                else if snd res = 3 \<or> snd res = 6 then
                  logger Warning ''COND(A) seems to be greater than CONLIM, check input data'' s1
                else if snd res = 7 then
                  (logger Warning
                     ''LSMR reached iteration limit and did not converge, check input data. Setting solution to last iteration''
                     s1)\<lparr>c := fst res\<rparr>
                else s1)
      in Inr (True, s2\<lparr>up_to_date := True\<rparr>))"

text \<open>
  \<^verbatim>\<open>solve_system(solver, solver_kwargs)\<close>. The solution is set to NaN everywhere and
  the matrix is assembled before the solver argument is looked at. A callable receives the
  matrix in compressed row form.
\<close>

definition solve_system :: "backend \<Rightarrow> solver_arg \<Rightarrow> kwargs \<Rightarrow> interp \<Rightarrow> error + bool \<times> interp" where
  "solve_system bk slv kw s =
     (let s0 = s\<lparr>c := map (\<lambda>_. NaN) (replicate (n_nodes (support s)) (Fin 0))\<rparr>
      in ebind (build_matrix s0) (\<lambda>(A, B).
           case slv of
             Custom f \<Rightarrow>
               Inr (True, (logger Warning ''Using custom solver'' s0)
                            \<lparr>c := f (tocsr A) B, up_to_date := True, solves := solves s0 + 1\<rparr>)
           | Named nm \<Rightarrow>
               (let (nm', s1) =
                      (if nm \<notin> set [''cg'', ''lsmr'']
                       then (''cg'', logger Warning
                               (''Unknown solver '' @ nm @ '' using cg. '' @ [CHR 0x0A]
                                 @ '' Available solvers are cg and lsmr or a custom solver as a callable function'')
                               s0)
                       else (nm, s0))
                in if nm' = ''cg'' then solve_cg bk kw A B s1
                   else if nm' = ''lsmr'' then solve_lsmr bk kw A B s1
                   else Inr (False, s1))
           | NoSolver \<Rightarrow> Inr (False, s0)))"

text \<open>
  \<^verbatim>\<open>update()\<close>. \<open>setup_interpolator\<close> is the hook a subclass provides to register
  its constraints again. The result is \<^verbatim>\<open>False\<close>, what \<^verbatim>\<open>solve_system\<close> returned,
  or Python's \<^verbatim>\<open>None\<close> when the method falls off its end.
\<close>

definition update ::
  "backend \<Rightarrow> (interp \<Rightarrow> (error + interp) option) \<Rightarrow> interp \<Rightarrow> (error + bool option \<times> interp) option" where
  "update bk setup_interpolator s =
     (case solver s of
        NoSolver \<Rightarrow> Some (Inr (Some False, s))
      | _ \<Rightarrow>
          if \<not> up_to_date s then
            (case setup_interpolator s of
               None \<Rightarrow> None
             | Some (Inl e) \<Rightarrow> Some (Inl e)
             | Some (Inr s1) \<Rightarrow>
                 (case solve_system bk (solver s1) [] s1 of
                    Inl e \<Rightarrow> Some (Inl e)
                  | Inr (r, s2) \<Rightarrow> Some (Inr (Some r, s2))))
          else Some (Inr (None, s)))"

subsection \<open>Evaluation\<close>

text \<open>
  \<^verbatim>\<open>target[mask] = values\<close> where the values come from a call: they must be as many
  as the selected slots, or a single value that is repeated, or ValueError is raised.
\<close>

definition assign_masked :: "bool list \<Rightarrow> 'a list \<Rightarrow> 'a list \<Rightarrow> error + 'a list" where
  "assign_masked msk target vals =
     (let k = length (filter id msk)
      in if length vals = k then Inr (masked_set msk target vals)
         else if length vals = 1 then Inr (masked_set msk target (replicate k (hd vals)))
         else Inl ValueError)"

text \<open>
  \<^verbatim>\<open>evaluate_value(locations)\<close>. The mask is computed as
  \<^verbatim>\<open>np.any(evaluation_points == np.nan, axis=1)\<close>, a comparison with NaN by
  \<^verbatim>\<open>==\<close>.
\<close>

definition evaluate_value ::
  "backend \<Rightarrow> (interp \<Rightarrow> (error + interp) option) \<Rightarrow> point list \<Rightarrow> interp
    \<Rightarrow> (error + fl list \<times> interp) option" where
  "evaluate_value bk setup_interpolator locations s =
     (case update bk setup_interpolator s of
        None \<Rightarrow> None
      | Some (Inl e) \<Rightarrow> Some (Inl e)
      | Some (Inr (r, s1)) \<Rightarrow>
          (let evaluation_points = locations;
               evaluated = replicate (length evaluation_points) (Fin 0);
               msk = map (list_ex (\<lambda>x. feq x NaN)) evaluation_points;
               keep = map Not msk
           in if length (masked_get keep evaluation_points) > 0 then
                (case assign_masked keep evaluated
                        (sup_evaluate_value (support s1) (masked_get keep evaluation_points) (c s1)) of
                   Inl e \<Rightarrow> Some (Inl e)
                 | Inr evaluated' \<Rightarrow> Some (Inr (evaluated', s1)))
              else Some (Inr (evaluated, s1))))"

text \<open>\<^verbatim>\<open>evaluate_gradient(locations)\<close>\<close>

definition evaluate_gradient ::
  "backend \<Rightarrow> (interp \<Rightarrow> (error + interp) option) \<Rightarrow> point list \<Rightarrow> interp
    \<Rightarrow> (error + fl list list \<times> interp) option" where
  "evaluate_gradient bk setup_interpolator locations s =
     (case update bk setup_interpolator s of
        None \<Rightarrow> None
      | Some (Inl e) \<Rightarrow> Some (Inl e)
      | Some (Inr (r, s1)) \<Rightarrow>
          if length locations > 0
          then Some (Inr (sup_evaluate_gradient (support s1) locations (c s1), s1))
          else Some (Inr ([], s1)))"

text \<open>
  \<^verbatim>\<open>DiscreteInterpolator(support, up_to_date=...)\<close>: the solution starts as zeros, the
  region function selects every node, the solver is \<^verbatim>\<open>"cg"\<close> and the registries are
  empty.
\<close>

definition DiscreteInterpolator :: "support \<Rightarrow> bool \<Rightarrow> interp" where
  "DiscreteInterpolator sp utd =
     \<lparr>support = sp, region_function = (\<lambda>xyz. True),
      c = replicate (n_nodes sp) (Fin 0), up_to_date = utd, solver = Named ''cg'',
      constraints = [], equal_constraints = [], eq_const_c = 0, c_ = 0,
      logged = [], solves = 0\<rparr>"

text \<open>
  A sequence of calls of \<^verbatim>\<open>add_constraints_to_least_squares\<close>, each given by its
  arguments \<open>(A, B, idc, w, name)\<close>, stopping at the first call that raises or never
  returns.
\<close>

type_synonym soft_call = "fl ndarray \<times> fl list \<times> int ndarray \<times> weight \<times> string"

fun add_all :: "(fl list \<Rightarrow> fl) \<Rightarrow> soft_call list \<Rightarrow> interp \<Rightarrow> (error + interp) option" where
  "add_all linalg_norm [] s = Some (Inr s)"
| "add_all linalg_norm ((A, B, idc, wt, name) # calls) s =
     (case add_constraints_to_least_squares linalg_norm A B idc wt name s of
        None \<Rightarrow> None
      | Some (Inl e) \<Rightarrow> Some (Inl e)
      | Some (Inr s1) \<Rightarrow> add_all linalg_norm calls s1)"

text \<open>
  The shape a registered block has: as many columns as the interpolator has degrees of
  freedom, one weight per row and, when it has a row, one right-hand side per row (a block
  without rows keeps the right-hand side it was given, of any length). \<open>weighted\<close> selects
  the blocks that \<^verbatim>\<open>build_matrix\<close> does not skip, those whose weight array is not
  empty.
\<close>

definition block_ok :: "nat \<Rightarrow> block \<Rightarrow> bool" where
  "block_ok n blk = (ncols (matrix blk) = n \<and> length (w blk) = nrows (matrix blk)
     \<and> (nrows (matrix blk) \<noteq> 0 \<longrightarrow> length (b blk) = nrows (matrix blk)))"

definition registry_ok :: "interp \<Rightarrow> bool" where
  "registry_ok s = list_all (\<lambda>p. block_ok (nx s) (snd p)) (constraints s)"

definition weighted :: "block list \<Rightarrow> block list" where
  "weighted blks = filter (\<lambda>blk. length (w blk) \<noteq> 0) blks"

text \<open>
  The shape a registered equality constraint has: one column and one row per coefficient,
  the columns among the degrees of freedom and the rows below the row counter.
\<close>

definition eq_block_ok :: "nat \<Rightarrow> nat \<Rightarrow> eq_block \<Rightarrow> bool" where
  "eq_block_ok n k e =
     (length (eq_col e) = length (eqA e) \<and> length (eq_row e) = length (eqA e)
      \<and> list_all (\<lambda>j. 0 \<le> j \<and> j < int n) (eq_col e)
      \<and> list_all (\<lambda>i. i < k) (eq_row e))"

definition eq_registry_ok :: "interp \<Rightarrow> bool" where
  "eq_registry_ok s =
     list_all (\<lambda>p. eq_block_ok (nx s) (eq_const_c s) (snd p)) (equal_constraints s)"

text \<open>Calling \<^verbatim>\<open>update()\<close> a number of times in a row, stopping at the first failure.\<close>

fun repeat_update ::
  "backend \<Rightarrow> (interp \<Rightarrow> (error + interp) option) \<Rightarrow> nat \<Rightarrow> interp \<Rightarrow> (error + interp) option" where
  "repeat_update bk h 0 s = Some (Inr s)"
| "repeat_update bk h (Suc n) s =
     (case update bk h s of
        None \<Rightarrow> None
      | Some (Inl e) \<Rightarrow> Some (Inl e)
      | Some (Inr (r, s1)) \<Rightarrow> repeat_update bk h n s1)"

subsection \<open>Example inputs\<close>

text \<open>
  A support of three nodes on a line. Its value kernel answers with the first coordinate
  of every point it is asked about, so a result shows which points were sent to it.
\<close>

definition sp3 :: support where
  "sp3 = \<lparr>nodes = [[Fin 0, Fin 0, Fin 0], [Fin 1, Fin 0, Fin 0], [Fin 2, Fin 0, Fin 0]],
          sup_evaluate_value = (\<lambda>pts cs. map hd pts),
          sup_evaluate_gradient = (\<lambda>pts cs. map (\<lambda>p. [Fin 0, Fin 0, Fin 0]) pts)\<rparr>"

text \<open>A backend whose solvers report an ill-conditioned system (termination code 3).\<close>

definition bk_ill :: backend where
  "bk_ill = \<lparr>sparse_linalg_cg = (\<lambda>A B kw. ([Fin 1, Fin 1, Fin 1], 0)),
             sparse_linalg_lsmr = (\<lambda>A B kw. ([Fin 1, Fin 1, Fin 1], 3))\<rparr>"

text \<open>
  A solver that answers with the values stored in the matrix followed by the right-hand
  side, so that a result shows what was sent to it, and the backend whose two solvers
  answer in this way.
\<close>

definition echo :: "spmat \<Rightarrow> fl list \<Rightarrow> fl list" where
  "echo A B = map (\<lambda>e. snd (snd e)) (entries A) @ B"

definition bk_echo :: backend where
  "bk_echo = \<lparr>sparse_linalg_cg = (\<lambda>A B kw. (echo A B, 0)),
              sparse_linalg_lsmr = (\<lambda>A B kw. (echo A B, 1))\<rparr>"

text \<open>A setup hook that registers nothing.\<close>

definition no_setup :: "interp \<Rightarrow> (error + interp) option" where
  "no_setup s = Some (Inr s)"

text \<open>A fresh interpolator, and one holding a single soft constraint.\<close>

definition s_fresh :: interp where
  "s_fresh = DiscreteInterpolator sp3 False"

definition blk_one :: block where
  "blk_one = \<lparr>matrix = \<lparr>nrows = 1, ncols = 3, entries = [(0, 0, Fin 1)]\<rparr>,
              b = [Fin 2], w = [Fin 1]\<rparr>"

definition s_one :: interp where
  "s_one = s_fresh\<lparr>constraints := [(''grad'', blk_one)]\<rparr>"

definition s_solved :: interp where
  "s_solved = s_one\<lparr>c := [Fin 1, Fin 1, Fin 1], up_to_date := True\<rparr>"

text \<open>
  The same interpolator with a region that holds the middle node only, and with a region
  that leaves the first node out.
\<close>

definition s_mid :: interp where
  "s_mid = s_fresh\<lparr>region_function := (\<lambda>p. feq (hd p) (Fin 1))\<rparr>"

definition s_tail :: interp where
  "s_tail = s_fresh\<lparr>region_function := (\<lambda>p. \<not> feq (hd p) (Fin 0))\<rparr>"

text \<open>
  The interpolator \<open>s_tail\<close> after nodes \<open>0\<close>, \<open>2\<close> and \<open>-2\<close> (the middle node,
  counted from the end) were fixed to the values \<open>5\<close>, \<open>7\<close> and \<open>9\<close>.
\<close>

definition s_eq :: interp where
  "s_eq = s_tail\<lparr>equal_constraints :=
             [(''fix'', \<lparr>eqA = [Fin 1, Fin 1], eqB = [Fin 7, Fin 9],
                        eq_col = [1, 0], eq_row = [0, 1]\<rparr>)],
           eq_const_c := 2\<rparr>"

text \<open>
  A constraint of one row and one column, \<open>2 x\<^sub>0 = rhs\<close>, under a given name. After
  normalisation of a finite right-hand side \<open>4\<close> it is the block \<open>blk_one\<close>.
\<close>

definition arr11 :: "'a \<Rightarrow> 'a ndarray" where
  "arr11 x = \<lparr>shape = [1, 1], data = [x]\<rparr>"

definition one_row :: "fl \<Rightarrow> string \<Rightarrow> soft_call" where
  "one_row rhs name = (arr11 (Fin 2), [rhs], arr11 0, WScalar (Fin 1), name)"

text \<open>A constraint without rows.\<close>

definition no_rows :: "string \<Rightarrow> soft_call" where
  "no_rows name = (\<lparr>shape = [0, 3], data = []\<rparr>, [], \<lparr>shape = [0, 3], data = []\<rparr>,
                   WScalar (Fin 1), name)"

text \<open>
  The block a constraint without rows is registered as, and the interpolator that holds
  nothing else.
\<close>

definition blk_none :: block where
  "blk_none = \<lparr>matrix = \<lparr>nrows = 0, ncols = 3, entries = []\<rparr>, b = [], w = []\<rparr>"

definition s_norows :: interp where
  "s_norows = s_fresh\<lparr>constraints := [(''empty'', blk_none)]\<rparr>"

text \<open>
  A constraint without rows that comes with a right-hand side all the same, the block it is
  registered as, and the interpolator that holds it between two copies of \<open>blk_one\<close>.
\<close>

definition lone_rhs :: "string \<Rightarrow> soft_call" where
  "lone_rhs name = (\<lparr>shape = [0, 3], data = []\<rparr>, [Fin 9], \<lparr>shape = [0, 3], data = []\<rparr>,
                    WScalar (Fin 1), name)"

definition blk_lone :: block where
  "blk_lone = \<lparr>matrix = \<lparr>nrows = 0, ncols = 3, entries = []\<rparr>, b = [Fin 9], w = []\<rparr>"

definition s_three :: interp where
  "s_three = s_fresh\<lparr>constraints :=
               [(''grad'', blk_one), (''empty'', blk_lone), (''grad_0'', blk_one)]\<rparr>"

text \<open>
  A constraint of two rows, \<open>2 x\<^sub>1 = 4\<close> and a row of zeros with right-hand side
  \<open>3\<close>, and the interpolator it leaves when it is registered as \<^verbatim>\<open>"norm"\<close>.
\<close>

definition norm_A :: "fl ndarray" where
  "norm_A = \<lparr>shape = [2, 2], data = [Fin 0, Fin 2, Fin 0, Fin 0]\<rparr>"

definition norm_idc :: "int ndarray" where
  "norm_idc = \<lparr>shape = [2, 2], data = [0, 1, 1, 2]\<rparr>"

definition s_norm :: interp where
  "s_norm = s_fresh\<lparr>constraints :=
     [(''norm'', \<lparr>matrix = \<lparr>nrows = 2, ncols = 3,
                             entries = [(0, 0, Fin 0), (0, 1, Fin 1), (1, 1, Fin 0), (1, 2, Fin 0)]\<rparr>,
                  b = [Fin 2, Fin 3], w = [Fin 1, Fin 1]\<rparr>)]\<rparr>"

text \<open>
  A constraint of one row whose four coefficients \<open>1\<close> all fall on column \<open>1\<close>, with
  right-hand side \<open>2\<close>, and the interpolator it leaves when it is registered as
  \<^verbatim>\<open>"dup"\<close>.
\<close>

definition dup_A :: "fl ndarray" where
  "dup_A = \<lparr>shape = [1, 4], data = [Fin 1, Fin 1, Fin 1, Fin 1]\<rparr>"

definition dup_idc :: "int ndarray" where
  "dup_idc = \<lparr>shape = [1, 4], data = [1, 1, 1, 1]\<rparr>"

definition s_dup :: interp where
  "s_dup = s_fresh\<lparr>constraints :=
     [(''dup'', \<lparr>matrix = \<lparr>nrows = 1, ncols = 3, entries = [(0, 1, Fin 2)]\<rparr>,
                 b = [Fin 1], w = [Fin 1]\<rparr>)]\<rparr>"

text \<open>A matrix of one row over the two degrees of freedom of \<open>s_eq\<close>: \<open>x\<^sub>0 = 2\<close>.\<close>

definition A_eq :: spmat where
  "A_eq = \<lparr>nrows = 1, ncols = 2, entries = [(0, 0, Fin 1)]\<rparr>"

section \<open>Properties\<close>

subsection \<open>Floating-point values that are exact\<close>

text \<open>
  A number \<open>k / 2\<^sup>j\<close> with \<open>\<bar>k\<bar> < 2\<^sup>5\<^sup>3\<close> is a \<^verbatim>\<open>float64\<close>: rounding leaves it
  as it is. This covers the small integers and the halves of the examples.
\<close>

lemma round_even_int: "round_even (of_int k) = k"
  by (simp add: round_even_def)

lemma rnd64_dyadic:
  assumes k: "\<bar>k\<bar> < 2 ^ 53" and j: "j \<le> 1074"
  shows "rnd64 (of_int k / 2 ^ j) = Fin (of_int k / 2 ^ j)"
proof (cases "k = 0")
  case True
  then show ?thesis by (simp add: rnd64_def)
next
  case False
  let ?r = "of_int k / 2 ^ j :: real"
  let ?e = "max (\<lfloor>log 2 \<bar>?r\<bar>\<rfloor> - 52) (- 1074)"
  from False have r0: "?r \<noteq> 0" by simp
  have rabs: "\<bar>?r\<bar> = \<bar>real_of_int k\<bar> / 2 ^ j" by (simp add: abs_divide)
  have kb: "\<bar>real_of_int k\<bar> < 2 ^ 53"
  proof -
    have "real_of_int \<bar>k\<bar> < real_of_int (2 ^ 53)" using k by (simp only: of_int_less_iff)
    then show ?thesis by simp
  qed
  then have "\<bar>?r\<bar> < 2 ^ 53 / 2 ^ j" unfolding rabs by (simp add: divide_strict_right_mono)
  also have "\<dots> = 2 powr (53 - real j)"
    by (simp add: powr_diff powr_realpow [symmetric])
  finally have lt: "\<bar>?r\<bar> < 2 powr (53 - real j)" .
  have rpos: "0 < \<bar>?r\<bar>" using r0 by simp
  have "log 2 \<bar>?r\<bar> < 53 - real j"
    using lt rpos by (simp add: log_less_iff)
  then have "\<lfloor>log 2 \<bar>?r\<bar>\<rfloor> < 53 - int j"
    by (simp add: floor_less_iff)
  then have e_le: "?e \<le> - int j" using j by simp
  define d where "d = nat (- int j - ?e)"
  have de: "int d = - int j - ?e" using e_le by (simp add: d_def)
  have p: "2 powr real_of_int ?e = 2 powr (- real j) / 2 ^ d"
  proof -
    have "real_of_int ?e = - real j - real d" using de by linarith
    then show ?thesis by (simp add: powr_diff powr_realpow [symmetric])
  qed
  have pj: "2 powr (- real j) = 1 / (2::real) ^ j"
    by (simp add: powr_minus powr_realpow [symmetric] divide_inverse)
  have q: "?r / 2 powr real_of_int ?e = real_of_int (k * 2 ^ d)"
    unfolding p pj by simp
  have y: "real_of_int (round_even (?r / 2 powr real_of_int ?e)) * 2 powr real_of_int ?e = ?r"
    unfolding q round_even_int unfolding p pj by simp
  have "\<bar>?r\<bar> < 2 ^ 1024"
  proof -
    have "\<bar>real_of_int k\<bar> * 1 \<le> \<bar>real_of_int k\<bar> * 2 ^ j"
      by (rule mult_left_mono) simp_all
    then have "\<bar>?r\<bar> \<le> \<bar>real_of_int k\<bar>" unfolding rabs
      by (simp add: divide_le_eq)
    also have "\<dots> < 2 ^ 53" by (rule kb)
    also have "\<dots> \<le> (2::real) ^ 1024" by simp
    finally show ?thesis .
  qed
  then show ?thesis
    unfolding rnd64_def Let_def y using r0 by (simp del: abs_divide)
qed

lemma rnd64_int: "\<bar>k\<bar> < 2 ^ 53 \<Longrightarrow> rnd64 (of_int k) = Fin (of_int k)"
  using rnd64_dyadic [of k 0] by simp

lemma rnd64_0 [simp]: "rnd64 0 = Fin 0"
  by (simp add: rnd64_def)

lemma rnd64_1 [simp]: "rnd64 1 = Fin 1"
  using rnd64_int [of 1] by simp

lemma rnd64_numeral [simp]:
  "(numeral n :: int) < 2 ^ 53 \<Longrightarrow> rnd64 (numeral n) = Fin (numeral n)"
  using rnd64_int [of "numeral n"] by simp

lemma rnd64_half [simp]: "rnd64 (1 / 2) = Fin (1 / 2)"
  using rnd64_dyadic [of 1 1] by simp

lemma rnd64_halves [simp]:
  "(numeral n :: int) < 2 ^ 53 \<Longrightarrow> rnd64 (numeral n / 2) = Fin (numeral n / 2)"
  using rnd64_dyadic [of "numeral n" 1] by simp

text \<open>
  A result of \<open>2 ^ 1024\<close> or more overflows to an infinity. So a row that holds
  \<open>2 ^ 600\<close> has an infinite norm \<open>row_norm\<close>, and dividing by it gives zero.
\<close>

lemma round_even_ge_floor: "\<lfloor>q\<rfloor> \<le> round_even q"
  by (simp add: round_even_def Let_def)

lemma rnd64_overflow:
  assumes big: "2 ^ 1024 \<le> r"
  shows "rnd64 r = PInf"
proof -
  have pos: "0 < r" by (rule less_le_trans [OF _ big]) simp
  define L where "L = \<lfloor>log 2 r\<rfloor>"
  have "1024 \<le> log 2 r" using big pos by (simp add: le_log_iff)
  then have L1024: "1024 \<le> L" unfolding L_def by (simp add: le_floor_iff)
  have "of_int L \<le> log 2 r" unfolding L_def by (rule of_int_floor_le)
  then have Lr: "2 powr of_int L \<le> r" using pos by (simp add: le_log_iff)
  have "\<lfloor>log 2 \<bar>r\<bar>\<rfloor> = L" using pos by (simp add: L_def)
  moreover have "max (L - 52) (- 1074) = L - 52" using L1024 by simp
  ultimately have e: "max (\<lfloor>log 2 \<bar>r\<bar>\<rfloor> - 52) (- 1074) = L - 52" by simp
  have pe: "2 powr real_of_int (L - 52) = 2 powr of_int L / 2 ^ 52"
    by (simp add: powr_diff powr_realpow [symmetric])
  have p0: "0 < (2::real) powr of_int L" by simp
  have q: "2 ^ 52 \<le> r / 2 powr real_of_int (L - 52)"
    unfolding pe using Lr p0 by (simp add: field_simps)
  then have "real_of_int (2 ^ 52) \<le> r / 2 powr real_of_int (L - 52)" by simp
  then have "2 ^ 52 \<le> \<lfloor>r / 2 powr real_of_int (L - 52)\<rfloor>" by (simp only: le_floor_iff)
  with round_even_ge_floor [of "r / 2 powr real_of_int (L - 52)"]
  have "2 ^ 52 \<le> round_even (r / 2 powr real_of_int (L - 52))" by linarith
  then have "real_of_int (2 ^ 52) \<le> real_of_int (round_even (r / 2 powr real_of_int (L - 52)))"
    by (simp only: of_int_le_iff)
  then have "2 ^ 52 * (2 powr of_int L / 2 ^ 52)
      \<le> real_of_int (round_even (r / 2 powr real_of_int (L - 52))) * (2 powr of_int L / 2 ^ 52)"
    by (intro mult_right_mono) simp_all
  then have y: "2 powr of_int L
      \<le> real_of_int (round_even (r / 2 powr real_of_int (L - 52))) * 2 powr real_of_int (L - 52)"
    unfolding pe by simp
  have "(2::real) ^ 1024 = 2 powr 1024" by (simp add: powr_realpow [symmetric])
  also have "\<dots> \<le> 2 powr of_int L"
  proof (rule powr_mono)
    show "1024 \<le> real_of_int L" using L1024 by linarith
  qed simp
  finally have "2 ^ 1024
      \<le> real_of_int (round_even (r / 2 powr real_of_int (L - 52))) * 2 powr real_of_int (L - 52)"
    using y by linarith
  then have "2 ^ 1024
      \<le> \<bar>real_of_int (round_even (r / 2 powr real_of_int (L - 52))) * 2 powr real_of_int (L - 52)\<bar>"
    by linarith
  then show ?thesis
    unfolding rnd64_def Let_def e using pos by (simp del: abs_mult)
qed

lemma overflow_row:
  "normalise_rows row_norm [[Fin (2 ^ 600)]] [Fin 1] = ([[Fin 0]], [Fin 0])"
proof -
  have "rnd64 (2 ^ 600 * 2 ^ 600) = PInf" by (rule rnd64_overflow) simp
  then have "row_norm [Fin (2 ^ 600)] = PInf" by (simp add: row_norm_def)
  then show ?thesis by (simp add: normalise_rows_def Let_def)
qed


subsection \<open>Updating and solving\<close>

lemma update_up_to_date:
  "up_to_date s \<Longrightarrow>
   update bk h s = Some (Inr (case solver s of NoSolver \<Rightarrow> Some False | _ \<Rightarrow> None, s))"
  by (simp add: update_def split: solver_arg.splits)

lemma repeat_update_up_to_date: "up_to_date s \<Longrightarrow> repeat_update bk h n s = Some (Inr s)"
  by (induction n) (simp_all add: update_up_to_date)

text \<open>
  C9. In a state whose \<open>up_to_date\<close> flag is set, \<^verbatim>\<open>update()\<close> returns at once and
  leaves the whole state as it is, the solution \<open>c\<close> and the count of backend calls
  included. Any number of further calls does the same, and the evaluation methods,
  which call \<^verbatim>\<open>update()\<close> first, do not change the state either.
\<close>

theorem update_idempotent:
  assumes "up_to_date s"
  shows "update bk h s = Some (Inr (case solver s of NoSolver \<Rightarrow> Some False | _ \<Rightarrow> None, s))
    \<and> repeat_update bk h n s = Some (Inr s)
    \<and> (\<forall>vals s'. evaluate_value bk h locs s = Some (Inr (vals, s')) \<longrightarrow> s' = s)
    \<and> (\<forall>g s'. evaluate_gradient bk h locs s = Some (Inr (g, s')) \<longrightarrow> s' = s)"
  using assms
  by (auto simp add: update_up_to_date repeat_update_up_to_date evaluate_value_def
      evaluate_gradient_def Let_def split: sum.splits if_splits)

lemma s_solved_utd: "up_to_date s_solved" by (simp add: s_solved_def)

text \<open>
  The witness: the interpolator \<open>s_solved\<close> holds a solution and is up to date.
\<close>

theorem update_idempotent_witness:
  "up_to_date s_solved
   \<and> update bk_ill no_setup s_solved = Some (Inr (None, s_solved))
   \<and> repeat_update bk_ill no_setup 5 s_solved = Some (Inr s_solved)
   \<and> evaluate_value bk_ill no_setup [[Fin 7, Fin 0, Fin 0]] s_solved = Some (Inr ([Fin 7], s_solved))
   \<and> evaluate_gradient bk_ill no_setup [[Fin 7, Fin 0, Fin 0]] s_solved = Some (Inr ([[Fin 0, Fin 0, Fin 0]], s_solved))"
proof -
  have sv: "solver s_solved = Named ''cg''"
    by (simp add: s_solved_def s_one_def s_fresh_def DiscreteInterpolator_def)
  have ev: "evaluate_value bk_ill no_setup [[Fin 7, Fin 0, Fin 0]] s_solved = Some (Inr ([Fin 7], s_solved))"
    by (simp add: evaluate_value_def update_up_to_date s_solved_utd sv masked_get_def assign_masked_def
        s_solved_def s_one_def s_fresh_def DiscreteInterpolator_def sp3_def)
  have eg: "evaluate_gradient bk_ill no_setup [[Fin 7, Fin 0, Fin 0]] s_solved = Some (Inr ([[Fin 0, Fin 0, Fin 0]], s_solved))"
    by (simp add: evaluate_gradient_def update_up_to_date s_solved_utd sv
        s_solved_def s_one_def s_fresh_def DiscreteInterpolator_def sp3_def)
  show ?thesis
    using update_idempotent [OF s_solved_utd, of bk_ill no_setup 5 "[[Fin 7, Fin 0, Fin 0]]"] sv ev eg s_solved_utd
    by simp
qed

lemma build_matrix_c [simp]: "build_matrix (s\<lparr>c := x\<rparr>) = build_matrix s"
  by (simp add: build_matrix_def)

lemma build_matrix_logger [simp]: "build_matrix (logger lv msg s) = build_matrix s"
  by (simp add: build_matrix_def logger_def)

lemma build_blocks_shape:
  "build_blocks blks = Inr (mats, bs) \<Longrightarrow>
     length bs = length mats \<and> list_all2 (\<lambda>m v. length v = nrows m) mats bs"
proof (induction blks arbitrary: mats bs)
  case Nil
  then show ?case by simp
next
  case (Cons blk rest)
  then show ?case
    by (auto simp add: ebind_def sp_multiply_def vec_multiply_def
        split: if_splits sum.splits prod.splits)
qed

lemma stacked_length:
  "list_all2 (\<lambda>m v. length v = nrows m) mats bs \<Longrightarrow> length (concat bs) = sum_list (map nrows mats)"
  by (induction mats bs rule: list_all2_induct) simp_all

lemma build_matrix_rhs_length:
  assumes "build_matrix s = Inr (A, B)"
  shows "length B = nrows A"
proof -
  from assms obtain mats bs where
    bb: "build_blocks (map snd (constraints s)) = Inr (mats, bs)"
    and st: "sp_vstack mats = Inr A" and hs: "np_hstack bs = Inr B"
    by (auto simp add: build_matrix_def ebind_def split: sum.splits prod.splits)
  from hs have B: "B = concat bs" by (auto simp add: np_hstack_def split: list.splits)
  from st have A: "nrows A = sum_list (map nrows mats)"
    by (auto simp add: sp_vstack_def split: list.splits if_splits)
  from build_blocks_shape [OF bb] stacked_length show ?thesis
    unfolding A B by blast
qed

lemma solve_cg_result:
  assumes "length B = nrows A"
  shows "\<exists>s' ATA ATB. solve_cg bk kw A B s = Inr (True, s')
     \<and> sp_dot (sp_transpose A) A = Inr ATA \<and> sp_dot_vec (sp_transpose A) B = Inr ATB
     \<and> solves s' = solves s + 1 \<and> up_to_date s'
     \<and> c s' = fst (sparse_linalg_cg bk ATA ATB kw)"
  using assms
  by (simp add: solve_cg_def ebind_def sp_dot_def sp_dot_vec_def sp_transpose_def Let_def logger_def)

lemma solve_lsmr_result:
  "\<exists>s'. solve_lsmr bk kw A B s = Inr (True, s') \<and> solves s' = solves s + 1 \<and> up_to_date s'
     \<and> c s' = (if snd (sparse_linalg_lsmr bk A B kw) \<in> {1, 2, 4, 5, 7}
               then fst (sparse_linalg_lsmr bk A B kw) else c s)"
  by (simp add: solve_lsmr_def Let_def logger_def)

lemma build_s_one:
  "build_matrix s_one = Inr (\<lparr>nrows = 1, ncols = 3, entries = [(0, 0, Fin 1)]\<rparr>, [Fin 2])"
  by (simp add: build_matrix_def s_one_def blk_one_def ebind_def sp_multiply_def vec_multiply_def
      sp_vstack_def np_hstack_def)

lemma build_s_solved:
  "build_matrix s_solved = Inr (\<lparr>nrows = 1, ncols = 3, entries = [(0, 0, Fin 1)]\<rparr>, [Fin 2])"
  using build_s_one by (simp add: build_matrix_def s_solved_def)

text \<open>
  C4. Whenever the matrix can be assembled, \<^verbatim>\<open>solve_system\<close> returns, and it returns
  \<^verbatim>\<open>True\<close> exactly when a solver backend was run (the argument is a callable or a
  strategy name), which is exactly when the count of backend calls has grown by one. A
  call that returns \<^verbatim>\<open>True\<close> marks the state up to date, and any other call leaves the
  flag as it was. The solution \<open>c\<close> is then the answer of the backend: of the callable on
  the matrix in compressed row form and the right-hand side, of
  \<^verbatim>\<open>sparse.linalg.cg\<close> on the normal equations for \<^verbatim>\<open>"cg"\<close> and for an unknown
  name, and of \<^verbatim>\<open>sparse.linalg.lsmr\<close> when its termination code is 1, 2, 4, 5 or 7.
  For every other code of \<^verbatim>\<open>lsmr\<close>, the codes 3 and 6 of ill-conditioning among them,
  the call still returns \<^verbatim>\<open>True\<close> but the computed result is dropped: \<open>c\<close> is the
  all-NaN vector of length \<open>n_nodes\<close> set before the solve, as it is when no solver is
  given.
\<close>

theorem solve_system_true_iff_solved:
  assumes "build_matrix s = Inr (A, B)"
  shows "\<exists>r s'. solve_system bk slv kw s = Inr (r, s')
      \<and> (r \<longleftrightarrow> slv \<noteq> NoSolver)
      \<and> solves s' = solves s + (if r then 1 else 0)
      \<and> (up_to_date s' \<longleftrightarrow> r \<or> up_to_date s)
      \<and> (slv = NoSolver \<longrightarrow> c s' = replicate (n_nodes (support s)) NaN)
      \<and> (\<forall>f. slv = Custom f \<longrightarrow> c s' = f (tocsr A) B)
      \<and> (slv = Named ''lsmr'' \<longrightarrow>
           c s' = (if snd (sparse_linalg_lsmr bk A B kw) \<in> {1, 2, 4, 5, 7}
                   then fst (sparse_linalg_lsmr bk A B kw)
                   else replicate (n_nodes (support s)) NaN))
      \<and> (\<forall>nm. slv = Named nm \<and> nm \<noteq> ''lsmr'' \<longrightarrow>
           (\<exists>ATA ATB. sp_dot (sp_transpose A) A = Inr ATA
              \<and> sp_dot_vec (sp_transpose A) B = Inr ATB
              \<and> c s' = fst (sparse_linalg_cg bk ATA ATB kw)))"
proof -
  let ?s0 = "s\<lparr>c := replicate (n_nodes (support s)) NaN\<rparr>"
  have len: "length B = nrows A" by (rule build_matrix_rhs_length [OF assms])
  show ?thesis
  proof (cases slv)
    case NoSolver
    then show ?thesis using assms by (auto simp add: solve_system_def ebind_def)
  next
    case (Custom f)
    then show ?thesis using assms by (auto simp add: solve_system_def ebind_def logger_def)
  next
    case (Named nm)
    consider (lsmr) "nm = ''lsmr''" | (cg) "nm = ''cg''" | (other) "nm \<noteq> ''lsmr''" "nm \<noteq> ''cg''"
      by blast
    then show ?thesis
    proof cases
      case lsmr
      obtain s' where r: "solve_lsmr bk kw A B ?s0 = Inr (True, s')"
        and sv: "solves s' = solves ?s0 + 1" and u: "up_to_date s'"
        and cs: "c s' = (if snd (sparse_linalg_lsmr bk A B kw) \<in> {1, 2, 4, 5, 7}
               then fst (sparse_linalg_lsmr bk A B kw) else c ?s0)"
        using solve_lsmr_result [of bk kw A B ?s0] by blast
      have "solve_system bk slv kw s = Inr (True, s')"
        using assms Named lsmr r by (simp add: solve_system_def ebind_def)
      then show ?thesis using Named lsmr sv u cs by auto
    next
      case cg
      obtain s' ATA ATB where r: "solve_cg bk kw A B ?s0 = Inr (True, s')"
        and d: "sp_dot (sp_transpose A) A = Inr ATA" "sp_dot_vec (sp_transpose A) B = Inr ATB"
        and sv: "solves s' = solves ?s0 + 1" and u: "up_to_date s'"
        and cs: "c s' = fst (sparse_linalg_cg bk ATA ATB kw)"
        using solve_cg_result [OF len, of bk kw ?s0] by blast
      have "solve_system bk slv kw s = Inr (True, s')"
        using assms Named cg r by (simp add: solve_system_def ebind_def)
      then show ?thesis using Named cg sv u cs d by auto
    next
      case other
      let ?s1 = "logger Warning
                   (''Unknown solver '' @ nm @ '' using cg. '' @ [CHR 0x0A]
                     @ '' Available solvers are cg and lsmr or a custom solver as a callable function'')
                   ?s0"
      obtain s' ATA ATB where r: "solve_cg bk kw A B ?s1 = Inr (True, s')"
        and d: "sp_dot (sp_transpose A) A = Inr ATA" "sp_dot_vec (sp_transpose A) B = Inr ATB"
        and sv: "solves s' = solves ?s1 + 1" and u: "up_to_date s'"
        and cs: "c s' = fst (sparse_linalg_cg bk ATA ATB kw)"
        using solve_cg_result [OF len, of bk kw ?s1] by blast
      have "solves ?s1 = solves s" by (simp add: logger_def)
      moreover have "solve_system bk slv kw s = Inr (True, s')"
        using assms Named other r by (simp add: solve_system_def ebind_def)
      ultimately show ?thesis using Named other sv u cs d by auto
    qed
  qed
qed

text \<open>
  The witness: the interpolator \<open>s_one\<close> with one soft constraint \<open>x\<^sub>0 = 2\<close>. Solved
  with \<^verbatim>\<open>"lsmr"\<close> on a backend that reports termination code 3, it is left with the
  all-NaN solution. On the backend \<open>bk_echo\<close>, \<^verbatim>\<open>"cg"\<close> leaves the entry of
  \<open>A\<^sup>T A\<close> followed by \<open>A\<^sup>T b\<close>, and \<^verbatim>\<open>"lsmr"\<close> and the callable \<open>echo\<close>
  leave the entry of \<open>A\<close> followed by \<open>b\<close>; with no solver the solution is all NaN
  and the state is not marked up to date.
\<close>

lemma normal_s_one:
  "sp_dot (sp_transpose \<lparr>nrows = Suc 0, ncols = 3, entries = [(0, 0, Fin 1)]\<rparr>)
       \<lparr>nrows = Suc 0, ncols = 3, entries = [(0, 0, Fin 1)]\<rparr>
     = Inr \<lparr>nrows = 3, ncols = 3, entries = [(0, 0, Fin 1)]\<rparr>"
  "sp_dot_vec (sp_transpose \<lparr>nrows = Suc 0, ncols = 3, entries = [(0, 0, Fin 1)]\<rparr>) [Fin 2]
     = Inr [Fin 2, Fin 0, Fin 0]"
  by (simp_all add: sp_dot_def sp_dot_vec_def sp_transpose_def upt_rec numeral_3_eq_3)

lemma tocsr_s_one:
  "tocsr \<lparr>nrows = Suc 0, ncols = 3, entries = [(0, 0, Fin 1)]\<rparr>
     = \<lparr>nrows = Suc 0, ncols = 3, entries = [(0, 0, Fin 1)]\<rparr>"
  by (simp add: tocsr_def sum_duplicates_def sp_at_def upt_rec numeral_3_eq_3)

theorem solve_system_true_iff_solved_witness:
  "build_matrix s_one = Inr (\<lparr>nrows = 1, ncols = 3, entries = [(0, 0, Fin 1)]\<rparr>, [Fin 2])
   \<and> (\<exists>s'. solve_system bk_ill (Named ''lsmr'') [] s_one = Inr (True, s')
         \<and> solves s' = 1 \<and> c s' = [NaN, NaN, NaN] \<and> up_to_date s')
   \<and> (\<exists>s'. solve_system bk_echo (Named ''cg'') [] s_one = Inr (True, s')
         \<and> solves s' = 1 \<and> c s' = [Fin 1, Fin 2, Fin 0, Fin 0] \<and> up_to_date s')
   \<and> (\<exists>s'. solve_system bk_echo (Named ''lsmr'') [] s_one = Inr (True, s')
         \<and> solves s' = 1 \<and> c s' = [Fin 1, Fin 2] \<and> up_to_date s')
   \<and> (\<exists>s'. solve_system bk_ill (Custom echo) [] s_one = Inr (True, s')
         \<and> solves s' = 1 \<and> c s' = [Fin 1, Fin 2] \<and> up_to_date s')
   \<and> (\<exists>s'. solve_system bk_echo NoSolver [] s_one = Inr (False, s')
         \<and> solves s' = 0 \<and> c s' = [NaN, NaN, NaN] \<and> \<not> up_to_date s')"
proof -
  let ?A = "\<lparr>nrows = 1, ncols = 3, entries = [(0, 0, Fin 1)]\<rparr>"
  have n: "n_nodes (support s_one) = 3"
    by (simp add: s_one_def s_fresh_def DiscreteInterpolator_def sp3_def n_nodes_def)
  have z: "solves s_one = 0" "\<not> up_to_date s_one"
    by (simp_all add: s_one_def s_fresh_def DiscreteInterpolator_def)
  have i: "snd (sparse_linalg_lsmr bk_ill ?A [Fin 2] []) = 3"
    by (simp add: bk_ill_def)
  have 1: "\<exists>s'. solve_system bk_ill (Named ''lsmr'') [] s_one = Inr (True, s')
         \<and> solves s' = 1 \<and> c s' = [NaN, NaN, NaN] \<and> up_to_date s'"
    using solve_system_true_iff_solved [OF build_s_one, of bk_ill "Named ''lsmr''" "[]"] n z i
    by (auto simp add: numeral_3_eq_3)
  have 2: "\<exists>s'. solve_system bk_echo (Named ''cg'') [] s_one = Inr (True, s')
         \<and> solves s' = 1 \<and> c s' = [Fin 1, Fin 2, Fin 0, Fin 0] \<and> up_to_date s'"
    using solve_system_true_iff_solved [OF build_s_one, of bk_echo "Named ''cg''" "[]"] n z
    by (auto simp add: normal_s_one bk_echo_def echo_def)
  have 3: "\<exists>s'. solve_system bk_echo (Named ''lsmr'') [] s_one = Inr (True, s')
         \<and> solves s' = 1 \<and> c s' = [Fin 1, Fin 2] \<and> up_to_date s'"
    using solve_system_true_iff_solved [OF build_s_one, of bk_echo "Named ''lsmr''" "[]"] n z
    by (auto simp add: bk_echo_def echo_def)
  have 4: "\<exists>s'. solve_system bk_ill (Custom echo) [] s_one = Inr (True, s')
         \<and> solves s' = 1 \<and> c s' = [Fin 1, Fin 2] \<and> up_to_date s'"
    using solve_system_true_iff_solved [OF build_s_one, of bk_ill "Custom echo" "[]"] n z
    by (auto simp add: tocsr_s_one echo_def)
  have 5: "\<exists>s'. solve_system bk_echo NoSolver [] s_one = Inr (False, s')
         \<and> solves s' = 0 \<and> c s' = [NaN, NaN, NaN] \<and> \<not> up_to_date s'"
    using solve_system_true_iff_solved [OF build_s_one, of bk_echo NoSolver "[]"] n z
    by (auto simp add: numeral_3_eq_3)
  from build_s_one 1 2 3 4 5 show ?thesis by blast
qed

text \<open>
  C10, as amended. With the default solver argument \<^verbatim>\<open>None\<close>, and provided the matrix
  can be assembled, \<^verbatim>\<open>solve_system\<close> returns \<^verbatim>\<open>False\<close>; the state it leaves differs
  from the one it found only in \<open>c\<close>, which is the all-NaN vector of length \<open>n_nodes\<close>. So
  a solution computed before is lost, and \<open>up_to_date\<close> is as it was.
\<close>

theorem solve_system_default_solver:
  assumes "build_matrix s = Inr (A, B)"
  shows "solve_system bk NoSolver kw s
       = Inr (False, s\<lparr>c := replicate (n_nodes (support s)) NaN\<rparr>)"
  using assms by (simp add: solve_system_def ebind_def)

text \<open>
  The witness: the solved interpolator \<open>s_solved\<close> loses its solution and stays marked
  up to date.
\<close>

theorem solve_system_default_solver_witness:
  "build_matrix s_solved = Inr (\<lparr>nrows = 1, ncols = 3, entries = [(0, 0, Fin 1)]\<rparr>, [Fin 2])
   \<and> solve_system bk_ill NoSolver [] s_solved = Inr (False, s_solved\<lparr>c := [NaN, NaN, NaN]\<rparr>)
   \<and> up_to_date (s_solved\<lparr>c := [NaN, NaN, NaN]\<rparr>)"
proof -
  have n: "n_nodes (support s_solved) = 3"
    by (simp add: s_solved_def s_one_def s_fresh_def DiscreteInterpolator_def sp3_def n_nodes_def)
  show ?thesis
    using solve_system_default_solver [OF build_s_solved, of bk_ill "[]"] n build_s_solved
    by (simp add: numeral_3_eq_3 s_solved_def)
qed

text \<open>
  C10 as stated fails on an interpolator without soft constraints: the matrix is assembled
  before the solver argument is looked at, \<^verbatim>\<open>sparse.vstack\<close> of no block raises
  ValueError, and the call does not return \<^verbatim>\<open>False\<close>.
\<close>

theorem solve_system_default_solver_raises:
  "solve_system bk_ill NoSolver [] s_fresh = Inl ValueError"
  by (simp add: solve_system_def s_fresh_def DiscreteInterpolator_def build_matrix_def ebind_def
      sp_vstack_def)

subsection \<open>Evaluation\<close>

text \<open>
  The comparison \<^verbatim>\<open>evaluation_points == np.nan\<close> is false for every entry, NaN
  included, so the mask of \<^verbatim>\<open>evaluate_value\<close> selects no point and every point is
  sent to the support.
\<close>

lemma feq_NaN: "feq x NaN = False"
  by (cases x) simp_all

lemma nan_mask_never_set:
  "map Not (map (list_ex (\<lambda>x. feq x NaN)) pts) = replicate (length pts) True"
  by (induction pts) (simp_all add: list_ex_iff feq_NaN)

lemma masked_get_all: "masked_get (replicate (length xs) True) xs = xs"
  by (induction xs) (simp_all add: masked_get_def)

lemma evaluate_value_queries_all:
  assumes "up_to_date s" and "locs \<noteq> []"
  shows "evaluate_value bk h locs s =
     (case assign_masked (replicate (length locs) True) (replicate (length locs) (Fin 0))
             (sup_evaluate_value (support s) locs (c s)) of
        Inl e \<Rightarrow> Some (Inl e)
      | Inr vals \<Rightarrow> Some (Inr (vals, s)))"
  unfolding evaluate_value_def Let_def nan_mask_never_set masked_get_all
  using assms by (simp add: update_up_to_date)

text \<open>
  C1. \<^verbatim>\<open>evaluate_value\<close> on a valid point and a point with a NaN coordinate: both
  points are sent to the support (whose kernel here answers with the first coordinate of
  each point it receives), and the slot of the NaN point holds the kernel's answer NaN
  instead of \<open>0\<close>. The claimed masking does not happen.
\<close>

theorem nan_point_reaches_support:
  "evaluate_value bk_ill no_setup [[Fin 5, Fin 0, Fin 0], [NaN, Fin 0, Fin 0]] s_solved =
     Some (Inr ([Fin 5, NaN], s_solved))"
proof -
  have u: "up_to_date s_solved" by (simp add: s_solved_def)
  have k: "sup_evaluate_value (support s_solved) [[Fin 5, Fin 0, Fin 0], [NaN, Fin 0, Fin 0]] (c s_solved)
      = [Fin 5, NaN]"
    by (simp add: s_solved_def s_one_def s_fresh_def DiscreteInterpolator_def sp3_def)
  show ?thesis
    by (simp add: evaluate_value_queries_all [OF u] k assign_masked_def)
qed

subsection \<open>The region maps\<close>

text \<open>
  C3. With a region that holds the middle one of three nodes, \<open>nx\<close> is the number of
  active nodes, but \<^verbatim>\<open>region_map\<close> sends the two inactive nodes to \<open>0\<close>, the index
  of the active node, and not to the sentinel \<open>-1\<close>.
\<close>

theorem region_map_inactive_is_zero:
  "region s_mid = [False, True, False] \<and> nx s_mid = 1 \<and> region_map s_mid = [0, 0, 0]"
  by (simp add: region_def nx_def region_map_def s_mid_def s_fresh_def DiscreteInterpolator_def
      sp3_def masked_get_def n_nodes_def numeral_3_eq_3)

text \<open>
  The map \<^verbatim>\<open>gi\<close> of \<^verbatim>\<open>add_equality_constraints\<close> on the same region does use
  the sentinel.
\<close>

lemma gi_s_mid: "gi s_mid = [- 1, 0, - 1]"
  by (simp add: gi_def region_def nx_def s_mid_def s_fresh_def DiscreteInterpolator_def
      sp3_def masked_get_def n_nodes_def numeral_3_eq_3)

subsection \<open>Registering soft constraints\<close>

lemma nx_logger [simp]: "nx (logger lv msg s) = nx s"
  by (simp add: nx_def region_def logger_def)
lemma constraints_logger [simp]: "constraints (logger lv msg s) = constraints s"
  by (simp add: logger_def)
lemma nx_warn_nan [simp]: "nx (warn_nan name idc A B s) = nx s"
  by (simp add: warn_nan_def)
lemma constraints_warn_nan [simp]: "constraints (warn_nan name idc A B s) = constraints s"
  by (simp add: warn_nan_def)
lemma flatten_block_shape: "flatten_block shp k wt = Inr r \<Longrightarrow> shp \<noteq> []"
  by (auto simp add: flatten_block_def)
lemma add_constraints_step:
  assumes fb: "flatten_block (shape A) (length B) wt = Inr (n, C, wt')"
    and sh: "shape idc = shape A"
    and lb: "n = 0 \<or> length B = n"
    and nr: "normalise_rows linalg_norm (rows2 n C (data A)) B = (A', B')"
    and wa: "weight_array wt' n = Inr ws"
    and un: "unique_name (map fst (constraints s)) name name = Some (Inr name')"
    and coo: "coo_matrix (concat A') (row_index n C) (data idc) (n, nx s) = Inr m"
  shows "add_constraints_to_least_squares linalg_norm A B idc wt name s =
      Some (Inr ((warn_nan name (data idc) A' B' s)
        \<lparr>constraints := dict_set name' \<lparr>matrix = tocsc m, b = B', w = ws\<rparr> (constraints s)\<rparr>))"
  using assms flatten_block_shape [OF fb]
  by (auto simp add: add_constraints_to_least_squares_def Let_def)

lemma unique_name_free: "name \<notin> set keys \<Longrightarrow> unique_name keys base name = Some (Inr name)"
  by (subst unique_name.simps) simp

lemma str_of_int_0: "str_of_int 0 = ''0''" by (simp add: str_of_int_def)
lemma str_of_int_1: "str_of_int 1 = ''1''" by (simp add: str_of_int_def)
lemma str_of_int_2: "str_of_int 2 = ''2''" by (simp add: str_of_int_def)
lemma py_int_0: "py_int ''0'' = Some 0"
  by (simp add: py_int_def strip_def is_space_def digits_value_def is_digit_def)
lemma py_int_1: "py_int ''1'' = Some 1"
  by (simp add: py_int_def strip_def is_space_def digits_value_def is_digit_def)

lemma nx_constraints [simp]: "nx (s\<lparr>constraints := x\<rparr>) = nx s"
  by (simp add: nx_def region_def)

lemma nx_s_fresh: "nx s_fresh = 3"
  by (simp add: nx_def region_def s_fresh_def DiscreteInterpolator_def sp3_def masked_get_def)

lemma row_norm_2: "row_norm [Fin 2] = Fin 2"
  by (simp add: row_norm_def)

lemma normalise_one_row:
  "normalise_rows row_norm (rows2 (Suc 0) (Suc 0) [Fin 2]) [x] = ([[Fin 1]], [fdiv x (Fin 2)])"
  apply (simp add: rows2_def)
  apply (simp add: normalise_rows_def Let_def row_norm_2)
  done

lemma tocsc_one:
  "tocsc \<lparr>nrows = Suc 0, ncols = 3, entries = [(0, 0, Fin 1)]\<rparr>
     = \<lparr>nrows = Suc 0, ncols = 3, entries = [(0, 0, Fin 1)]\<rparr>"
  by (simp add: tocsc_def sum_duplicates_def sp_at_def upt_rec numeral_3_eq_3)

lemma one_row_step:
  assumes "unique_name (map fst (constraints s)) name name = Some (Inr name')"
    and "nx s = 3"
  shows "add_all row_norm (one_row x name # calls) s =
     add_all row_norm calls ((warn_nan name [0] [[Fin 1]] [fdiv x (Fin 2)] s)
        \<lparr>constraints := dict_set name' (blk_one\<lparr>b := [fdiv x (Fin 2)]\<rparr>) (constraints s)\<rparr>)"
proof -
  have "add_constraints_to_least_squares row_norm (arr11 (Fin 2)) [x] (arr11 0) (WScalar (Fin 1)) name s
    = Some (Inr ((warn_nan name (data (arr11 (0::int))) [[Fin 1]] [fdiv x (Fin 2)] s)
        \<lparr>constraints := dict_set name'
            \<lparr>matrix = tocsc \<lparr>nrows = 1, ncols = 3, entries = [(0, 0, Fin 1)]\<rparr>,
             b = [fdiv x (Fin 2)], w = [Fin 1]\<rparr> (constraints s)\<rparr>))"
  proof (rule add_constraints_step [where n = 1 and C = 1 and wt' = "WScalar (Fin 1)"])
    show "flatten_block (shape (arr11 (Fin 2))) (length [x]) (WScalar (Fin 1)) = Inr (1, 1, WScalar (Fin 1))"
      by (simp add: flatten_block_def arr11_def)
    show "shape (arr11 (0::int)) = shape (arr11 (Fin 2))" by (simp add: arr11_def)
    show "1 = (0::nat) \<or> length [x] = 1" by simp
    show "normalise_rows row_norm (rows2 1 1 (data (arr11 (Fin 2)))) [x] = ([[Fin 1]], [fdiv x (Fin 2)])"
      by (simp add: arr11_def normalise_one_row)
    show "weight_array (WScalar (Fin 1)) 1 = Inr [Fin 1]"
      by (simp add: weight_array_def ebind_def)
    show "unique_name (map fst (constraints s)) name name = Some (Inr name')" by (rule assms)
    show "coo_matrix (concat [[Fin 1]]) (row_index 1 1) (data (arr11 0)) (1, nx s)
      = Inr \<lparr>nrows = 1, ncols = 3, entries = [(0, 0, Fin 1)]\<rparr>"
      by (simp add: coo_matrix_def row_index_def arr11_def assms)
  qed
  then show ?thesis by (simp add: one_row_def arr11_def blk_one_def tocsc_one)
qed

lemma blk_one_b: "blk_one\<lparr>b := [Fin 2]\<rparr> = blk_one"
  by (simp add: blk_one_def)

lemma warn_finite: "warn_nan name [0] [[Fin 1]] [Fin y] s = s"
  by (simp add: warn_nan_def)

text \<open>
  C2. A block whose right-hand side holds a NaN: the warning is logged and the block is
  registered all the same, NaN included, where the claim has it skipped.
\<close>

theorem nan_block_inserted:
  "add_constraints_to_least_squares row_norm
       \<lparr>shape = [1, 1], data = [Fin 2]\<rparr> [NaN] \<lparr>shape = [1, 1], data = [0]\<rparr>
       (WScalar (Fin 1)) ''x'' s_fresh =
     Some (Inr (s_fresh
       \<lparr>logged := [(Warning, ''Constraints contain nan not adding constraints: x'')],
        constraints := [(''x'', \<lparr>matrix = \<lparr>nrows = 1, ncols = 3, entries = [(0, 0, Fin 1)]\<rparr>,
                               b = [NaN], w = [Fin 1]\<rparr>)]\<rparr>))"
proof -
  have u: "unique_name (map fst (constraints s_fresh)) ''x'' ''x'' = Some (Inr ''x'')"
    by (simp add: unique_name_free s_fresh_def DiscreteInterpolator_def)
  have "add_all row_norm [one_row NaN ''x''] s_fresh =
     Some (Inr (s_fresh
       \<lparr>logged := [(Warning, ''Constraints contain nan not adding constraints: x'')],
        constraints := [(''x'', \<lparr>matrix = \<lparr>nrows = 1, ncols = 3, entries = [(0, 0, Fin 1)]\<rparr>,
                               b = [NaN], w = [Fin 1]\<rparr>)]\<rparr>))"
    by (simp add: one_row_step [OF u nx_s_fresh] warn_nan_def logger_def)
      (simp add: s_fresh_def DiscreteInterpolator_def blk_one_def)
  then show ?thesis
    by (simp add: one_row_def arr11_def split: option.splits sum.splits)
qed

text \<open>
  The scenario of C8: three blocks named \<^verbatim>\<open>"grad"\<close> are stored as \<^verbatim>\<open>"grad"\<close>,
  \<^verbatim>\<open>"grad_0"\<close> and \<^verbatim>\<open>"grad_1"\<close>, in that order.
\<close>

lemma name_collision_grad:
  "add_all row_norm [one_row (Fin 4) ''grad'', one_row (Fin 4) ''grad'', one_row (Fin 4) ''grad''] s_fresh =
     Some (Inr (s_fresh\<lparr>constraints :=
        [(''grad'', blk_one), (''grad_0'', blk_one), (''grad_1'', blk_one)]\<rparr>))"
proof -
  let ?g = "one_row (Fin 4) ''grad''"
  let ?s1 = "s_fresh\<lparr>constraints := [(''grad'', blk_one)]\<rparr>"
  let ?s2 = "s_fresh\<lparr>constraints := [(''grad'', blk_one), (''grad_0'', blk_one)]\<rparr>"
  let ?s3 = "s_fresh\<lparr>constraints :=
        [(''grad'', blk_one), (''grad_0'', blk_one), (''grad_1'', blk_one)]\<rparr>"
  have c0: "constraints s_fresh = []" by (simp add: s_fresh_def DiscreteInterpolator_def)
  have u1: "unique_name (map fst (constraints s_fresh)) ''grad'' ''grad'' = Some (Inr ''grad'')"
    by (simp add: unique_name_free c0)
  have u2: "unique_name (map fst (constraints ?s1)) ''grad'' ''grad'' = Some (Inr ''grad_0'')"
    by code_simp
  have u3: "unique_name (map fst (constraints ?s2)) ''grad'' ''grad'' = Some (Inr ''grad_1'')"
    by code_simp
  have n1: "nx ?s1 = 3" and n2: "nx ?s2 = 3" by (simp_all add: nx_s_fresh)
  have e1: "add_all row_norm [?g, ?g, ?g] s_fresh = add_all row_norm [?g, ?g] ?s1"
    by (simp add: one_row_step [OF u1 nx_s_fresh] warn_finite c0 blk_one_b)
  have e2: "add_all row_norm [?g, ?g] ?s1 = add_all row_norm [?g] ?s2"
    by (simp add: one_row_step [OF u2 n1] warn_finite blk_one_b)
  have e3: "add_all row_norm [?g] ?s2 = Some (Inr ?s3)"
    by (simp add: one_row_step [OF u3 n2] warn_finite blk_one_b)
  show ?thesis by (simp only: e1 e2 e3)
qed

lemma unique_name_loops:
  "unique_name [''a_1'', ''a_1_2''] ''a_1'' ''a_1_2'' = None"
proof (rule ccontr)
  assume "unique_name [''a_1'', ''a_1_2''] ''a_1'' ''a_1_2'' \<noteq> None"
  then obtain y where y: "unique_name [''a_1'', ''a_1_2''] ''a_1'' ''a_1_2'' = Some y" by blast
  have "\<not> ([''a_1'', ''a_1_2''] = [''a_1'', ''a_1_2''] \<and> ''a_1'' = ''a_1'' \<and> ''a_1_2'' = ''a_1_2'')"
  proof (rule unique_name.raw_induct [where P = "\<lambda>keys base name y.
        \<not> (keys = [''a_1'', ''a_1_2''] \<and> base = ''a_1'' \<and> name = ''a_1_2'')", OF _ y])
    fix f keys base name r
    assume IH: "\<And>k bb n y'. f k bb n = Some y' \<Longrightarrow>
         \<not> (k = [''a_1'', ''a_1_2''] \<and> bb = ''a_1'' \<and> n = ''a_1_2'')"
      and step: "(if name \<in> set keys then
        (if CHR ''_'' \<in> set name then
           (case split_on CHR ''_'' name of
              p0 # p1 # ps \<Rightarrow>
                (case py_int p1 of
                   None \<Rightarrow> Some (Inl ValueError)
                 | Some k \<Rightarrow> f keys base (base @ ''_'' @ str_of_int (k + 1)))
            | _ \<Rightarrow> Some (Inl IndexError))
         else f keys base (base @ ''_'' @ str_of_int 0))
      else Some (Inr name)) = Some r"
    show "\<not> (keys = [''a_1'', ''a_1_2''] \<and> base = ''a_1'' \<and> name = ''a_1_2'')"
    proof
      assume a: "keys = [''a_1'', ''a_1_2''] \<and> base = ''a_1'' \<and> name = ''a_1_2''"
      with step have "f [''a_1'', ''a_1_2''] ''a_1'' ''a_1_2'' = Some r"
        by (simp add: py_int_1 str_of_int_2)
      from IH [OF this] show False by simp
    qed
  qed
  then show False by simp
qed

text \<open>
  C8. The suffix is read from the piece after the first underscore of the colliding name,
  so a base name that holds an underscore breaks the rule: with three blocks named
  \<^verbatim>\<open>"a_1"\<close> the second is stored as \<^verbatim>\<open>"a_1_2"\<close>, and the third call proposes
  \<^verbatim>\<open>"a_1_2"\<close> again and again and never returns.
\<close>

theorem name_collision_never_returns:
  "add_all row_norm [one_row (Fin 4) ''a_1'', one_row (Fin 4) ''a_1'', one_row (Fin 4) ''a_1''] s_fresh = None"
proof -
  let ?g = "one_row (Fin 4) ''a_1''"
  let ?s1 = "s_fresh\<lparr>constraints := [(''a_1'', blk_one)]\<rparr>"
  let ?s2 = "s_fresh\<lparr>constraints := [(''a_1'', blk_one), (''a_1_2'', blk_one)]\<rparr>"
  have c0: "constraints s_fresh = []" by (simp add: s_fresh_def DiscreteInterpolator_def)
  have u1: "unique_name (map fst (constraints s_fresh)) ''a_1'' ''a_1'' = Some (Inr ''a_1'')"
    by (simp add: unique_name_free c0)
  have u2: "unique_name (map fst (constraints ?s1)) ''a_1'' ''a_1'' = Some (Inr ''a_1_2'')"
    by code_simp
  have u3: "unique_name (map fst (constraints ?s2)) ''a_1'' ''a_1'' = None"
    by (subst unique_name.simps) (simp add: py_int_1 str_of_int_2 unique_name_loops)
  have n1: "nx ?s1 = 3" by (simp add: nx_s_fresh)
  have e1: "add_all row_norm [?g, ?g, ?g] s_fresh = add_all row_norm [?g, ?g] ?s1"
    by (simp add: one_row_step [OF u1 nx_s_fresh] warn_finite c0 blk_one_b)
  have e2: "add_all row_norm [?g, ?g] ?s1 = add_all row_norm [?g] ?s2"
    by (simp add: one_row_step [OF u2 n1] warn_finite blk_one_b)
  have e3: "add_all row_norm [?g] ?s2 = None"
    using u3 by (simp add: one_row_def add_constraints_to_least_squares_def arr11_def
        flatten_block_def weight_array_def ebind_def Let_def split: prod.splits)
  show ?thesis by (simp only: e1 e2 e3)
qed

subsection \<open>Registering equality constraints\<close>

text \<open>
  Both index maps give an active node its rank among the active nodes, in ascending order
  of the node index; \<open>nx\<close> is the number of active nodes. An inactive node gets \<open>-1\<close>
  in \<open>gi\<close> and \<open>0\<close> in \<open>region_map\<close>.
\<close>

lemma masked_set_length [simp]: "length (masked_set msk ts vs) = length ts"
  by (induction msk ts vs rule: masked_set.induct) (auto split: list.splits)

lemma masked_set_nth:
  "length msk = length ts \<Longrightarrow> length (filter (\<lambda>m. m) msk) \<le> length vs \<Longrightarrow> i < length ts \<Longrightarrow>
   masked_set msk ts vs ! i = (if msk ! i then vs ! length (filter (\<lambda>m. m) (take i msk)) else ts ! i)"
proof (induction msk ts vs arbitrary: i rule: masked_set.induct)
  case (1 m ms t ts vs)
  show ?case
  proof (cases i)
    case 0
    with "1.prems" show ?thesis by (cases vs) auto
  next
    case (Suc j)
    show ?thesis
    proof (cases m)
      case True
      with "1.prems" obtain v vs' where vs: "vs = v # vs'" by (cases vs) auto
      from "1.IH"(2) [OF True vs, of j] "1.prems" True vs Suc show ?thesis by simp
    next
      case False
      from "1.IH"(3) [OF False, of j] "1.prems" False Suc show ?thesis by simp
    qed
  qed
qed simp_all

lemma masked_get_length:
  "length msk = length xs \<Longrightarrow> length (masked_get msk xs) = length (filter (\<lambda>m. m) msk)"
  by (induction msk xs rule: list_induct2) (simp_all add: masked_get_def)

lemma region_length [simp]: "length (region s) = n_nodes (support s)"
  by (simp add: region_def n_nodes_def)

lemma nx_count: "nx s = length (filter (\<lambda>m. m) (region s))"
  by (simp add: nx_def masked_get_length n_nodes_def)

lemma gi_length [simp]: "length (gi s) = n_nodes (support s)"
  by (simp add: gi_def)

lemma rank_less:
  "i < length msk \<Longrightarrow> msk ! i \<Longrightarrow> length (filter (\<lambda>m. m) (take i msk)) < length (filter (\<lambda>m. m) msk)"
proof -
  assume i: "i < length msk" and m: "msk ! i"
  have "msk = take i msk @ msk ! i # drop (Suc i) msk" using i by (rule id_take_nth_drop)
  then have "filter (\<lambda>m. m) msk = filter (\<lambda>m. m) (take i msk) @ filter (\<lambda>m. m) (msk ! i # drop (Suc i) msk)"
    by (metis filter_append)
  with m show ?thesis by simp
qed

lemma gi_nth:
  assumes "i < n_nodes (support s)"
  shows "gi s ! i = (if region s ! i then int (length (filter (\<lambda>m. m) (take i (region s)))) else - 1)"
proof -
  have "gi s ! i = (if region s ! i
        then map int [0 ..< nx s] ! length (filter (\<lambda>m. m) (take i (region s)))
        else replicate (n_nodes (support s)) (- 1) ! i)"
    unfolding gi_def using assms by (intro masked_set_nth) (simp_all add: nx_count)
  moreover have "region s ! i \<Longrightarrow> length (filter (\<lambda>m. m) (take i (region s))) < nx s"
    using assms by (simp add: nx_count rank_less)
  ultimately show ?thesis using assms by simp
qed

lemma region_map_length [simp]: "length (region_map s) = n_nodes (support s)"
  by (simp add: region_map_def Let_def)

lemma region_map_nth:
  assumes "i < n_nodes (support s)"
  shows "region_map s ! i = (if region s ! i then int (length (filter (\<lambda>m. m) (take i (region s)))) else 0)"
proof -
  let ?z = "replicate (n_nodes (support s)) (0::int)"
  have l: "length (masked_get (region s) ?z) = nx s"
    by (simp add: masked_get_length nx_count)
  have "region_map s ! i = (if region s ! i
        then map int [0 ..< nx s] ! length (filter (\<lambda>m. m) (take i (region s)))
        else ?z ! i)"
    unfolding region_map_def Let_def l using assms by (intro masked_set_nth) (simp_all add: nx_count)
  moreover have "region s ! i \<Longrightarrow> length (filter (\<lambda>m. m) (take i (region s))) < nx s"
    using assms by (simp add: nx_count rank_less)
  ultimately show ?thesis using assms by simp
qed

lemma np_index_Inr:
  "np_index xs i = Inr y \<longleftrightarrow>
     - int (length xs) \<le> i \<and> i < int (length xs) \<and> y = xs ! position (length xs) i"
  by (auto simp add: np_index_def position_def)

lemma np_take_Inr:
  "np_take xs js = Inr ys \<longleftrightarrow>
     (\<forall>i\<in>set js. - int (length xs) \<le> i \<and> i < int (length xs))
     \<and> ys = map (\<lambda>i. xs ! position (length xs) i) js"
proof (induction js arbitrary: ys)
  case Nil
  then show ?case by auto
next
  case (Cons j js)
  show ?case
  proof (cases "np_index xs j")
    case (Inl e)
    then have "\<not> (- int (length xs) \<le> j \<and> j < int (length xs))"
      by (auto simp add: np_index_def split: if_splits)
    with Inl show ?thesis by (auto simp add: ebind_def)
  next
    case (Inr y)
    then have y: "- int (length xs) \<le> j \<and> j < int (length xs) \<and> y = xs ! position (length xs) j"
      by (simp add: np_index_Inr)
    show ?thesis
    proof (cases "np_take xs js")
      case (Inl e)
      with Cons.IH [of "map (\<lambda>i. xs ! position (length xs) i) js"] Inr show ?thesis
        by (auto simp add: ebind_def)
    next
      case r: (Inr zs)
      with Cons.IH [of zs] Inr y show ?thesis by (auto simp add: ebind_def)
    qed
  qed
qed

lemma position_less:
  "- int n \<le> i \<Longrightarrow> i < int n \<Longrightarrow> position n i < n"
  by (auto simp add: position_def)

lemma masked_get_map:
  "length xs = length ys \<Longrightarrow>
   masked_get (map P xs) ys = map snd (filter (\<lambda>(x, y). P x) (zip xs ys))"
  by (induction xs ys rule: list_induct2) (simp_all add: masked_get_def)


lemma map_of_dict_set: "map_of (dict_set k v ps) = (map_of ps)(k \<mapsto> v)"
  by (induction ps) (auto simp add: fun_eq_iff)

lemma gi_sentinel:
  "i < n_nodes (support s) \<Longrightarrow> gi s ! i = - 1 \<longleftrightarrow> \<not> region s ! i"
  by (simp add: gi_nth)

lemma filter_zip_fst:
  "length xs = length ys \<Longrightarrow>
   map (\<lambda>(i, v). f i) (filter (\<lambda>(i, v). P i) (zip xs ys)) = map f (filter P xs)"
  by (induction xs ys rule: list_induct2) simp_all

lemma filter_zip_image:
  "map snd (filter (\<lambda>(i, k). P i) (zip xs (map f xs))) = map f (filter P xs)"
  by (induction xs) simp_all

lemma masked_get_Nil [simp]: "masked_get [] xs = []"
  by (simp add: masked_get_def)

lemma add_equality_constraints_Inr:
  assumes "add_equality_constraints node_idx values name s = Inr s'"
  defines "g \<equiv> \<lambda>i. gi s ! position (n_nodes (support s)) i"
  defines "kept \<equiv> filter (\<lambda>(i, v). g i \<noteq> - 1) (zip node_idx values)"
  shows "\<forall>i\<in>set node_idx. - int (n_nodes (support s)) \<le> i \<and> i < int (n_nodes (support s))"
    and "node_idx = [] \<or> length values = length node_idx"
    and "s' = s\<lparr>equal_constraints :=
                  dict_set name
                    \<lparr>eqA = replicate (length kept) (Fin 1),
                     eqB = map snd kept,
                     eq_col = map (\<lambda>(i, v). g i) kept,
                     eq_row = [eq_const_c s ..< eq_const_c s + length kept]\<rparr>
                    (equal_constraints s),
                eq_const_c := eq_const_c s + length kept\<rparr>"
proof -
  from assms(1) obtain idc where t: "np_take (gi s) node_idx = Inr idc"
    by (auto simp add: add_equality_constraints_def ebind_def split: sum.splits)
  from t have rng: "\<forall>i\<in>set node_idx. - int (n_nodes (support s)) \<le> i \<and> i < int (n_nodes (support s))"
    and idc: "idc = map g node_idx"
    by (simp_all add: np_take_Inr g_def)
  let ?outside = "map (\<lambda>k. \<not> (k = - 1)) idc"
  have out: "?outside = map (\<lambda>i. g i \<noteq> - 1) node_idx" by (simp add: idc)
  from assms(1) t have len: "node_idx = [] \<or> length values = length node_idx"
    by (auto simp add: add_equality_constraints_def ebind_def Let_def idc split: if_splits)
  have v: "masked_get ?outside values = map snd kept"
  proof (cases "node_idx = []")
    case True
    then show ?thesis by (simp add: idc kept_def)
  next
    case False
    with len have "length node_idx = length values" by simp
    then show ?thesis unfolding out kept_def by (simp add: masked_get_map)
  qed
  have "masked_get ?outside idc = map snd (filter (\<lambda>(i, k). g i \<noteq> - 1) (zip node_idx idc))"
    unfolding out by (simp add: masked_get_map idc)
  also have "\<dots> = map g (filter (\<lambda>i. g i \<noteq> - 1) node_idx)"
    unfolding idc by (rule filter_zip_image)
  also have "\<dots> = map (\<lambda>(i, v). g i) kept"
  proof (cases "node_idx = []")
    case True
    then show ?thesis by (simp add: kept_def)
  next
    case False
    with len have "length node_idx = length values" by simp
    then show ?thesis unfolding kept_def by (simp add: filter_zip_fst)
  qed
  finally have k: "masked_get ?outside idc = map (\<lambda>(i, v). g i) kept" .
  have ok: "\<not> (?outside \<noteq> [] \<and> length values \<noteq> length ?outside)"
    using len by (auto simp add: idc)
  have raw: "s' = s\<lparr>equal_constraints :=
                  dict_set name
                    \<lparr>eqA = replicate (length (masked_get ?outside idc)) (Fin 1),
                     eqB = masked_get ?outside values,
                     eq_col = masked_get ?outside idc,
                     eq_row = [eq_const_c s ..< eq_const_c s + length (masked_get ?outside idc)]\<rparr>
                    (equal_constraints s),
                eq_const_c := eq_const_c s + length (masked_get ?outside idc)\<rparr>"
    using assms(1) t ok
    by (simp add: add_equality_constraints_def ebind_def Let_def split: if_splits)
  show "s' = s\<lparr>equal_constraints :=
                  dict_set name
                    \<lparr>eqA = replicate (length kept) (Fin 1),
                     eqB = map snd kept,
                     eq_col = map (\<lambda>(i, v). g i) kept,
                     eq_row = [eq_const_c s ..< eq_const_c s + length kept]\<rparr>
                    (equal_constraints s),
                eq_const_c := eq_const_c s + length kept\<rparr>"
    by (simp only: raw k v length_map)
  show "\<forall>i\<in>set node_idx. - int (n_nodes (support s)) \<le> i \<and> i < int (n_nodes (support s))"
    by (rule rng)
  show "node_idx = [] \<or> length values = length node_idx" by (rule len)
qed

text \<open>The compressed forms keep the shape, and hold one value per position.\<close>

lemma nrows_tocsc [simp]: "nrows (tocsc m) = nrows m"
  by (simp add: tocsc_def)
lemma ncols_tocsc [simp]: "ncols (tocsc m) = ncols m"
  by (simp add: tocsc_def)
lemma nrows_tocsr [simp]: "nrows (tocsr m) = nrows m"
  by (simp add: tocsr_def)
lemma ncols_tocsr [simp]: "ncols (tocsr m) = ncols m"
  by (simp add: tocsr_def)

lemma equality_C_shape:
  "equality_C s = Inr C \<Longrightarrow> nrows C = eq_const_c s \<and> ncols C = nx s"
  by (auto simp add: equality_C_def coo_matrix_def ebind_def Let_def split: if_splits)

lemma add_equality_block_shape:
  "add_equality_block A B s = Inr (Some (M, rhs)) \<Longrightarrow> nrows M = ncols A + eq_const_c s"
  by (auto simp add: add_equality_block_def ebind_def sp_dot_def sp_bmat_def sp_transpose_def
      dest!: equality_C_shape split: if_splits sum.splits)

text \<open>
  The call returns exactly when every node index addresses a node, from the front or from
  the end, and the values are as many as the node indices, or there is no node index.
\<close>

lemma add_equality_constraints_returns:
  "(\<exists>s'. add_equality_constraints node_idx values name s = Inr s') \<longleftrightarrow>
     (\<forall>i\<in>set node_idx. - int (n_nodes (support s)) \<le> i \<and> i < int (n_nodes (support s)))
     \<and> (node_idx = [] \<or> length values = length node_idx)"
proof
  assume "\<exists>s'. add_equality_constraints node_idx values name s = Inr s'"
  then obtain s' where "add_equality_constraints node_idx values name s = Inr s'" by blast
  from add_equality_constraints_Inr(1,2) [OF this]
  show "(\<forall>i\<in>set node_idx. - int (n_nodes (support s)) \<le> i \<and> i < int (n_nodes (support s)))
     \<and> (node_idx = [] \<or> length values = length node_idx)" by blast
next
  assume a: "(\<forall>i\<in>set node_idx. - int (n_nodes (support s)) \<le> i \<and> i < int (n_nodes (support s)))
     \<and> (node_idx = [] \<or> length values = length node_idx)"
  then have "np_take (gi s) node_idx = Inr (map (\<lambda>i. gi s ! position (length (gi s)) i) node_idx)"
    by (simp add: np_take_Inr)
  with a show "\<exists>s'. add_equality_constraints node_idx values name s = Inr s'"
    by (auto simp add: add_equality_constraints_def ebind_def Let_def)
qed

text \<open>
  With no node index the call returns whatever the values are, and stores an empty block.
\<close>

lemma add_equality_constraints_empty:
  "add_equality_constraints [] values name s =
     Inr (s\<lparr>equal_constraints :=
               dict_set name \<lparr>eqA = [], eqB = [], eq_col = [], eq_row = []\<rparr> (equal_constraints s),
            eq_const_c := eq_const_c s\<rparr>)"
  by (simp add: add_equality_constraints_def ebind_def)

text \<open>
  A registry of well shaped equality constraints gives a matrix \<^verbatim>\<open>C\<close>, and then
  \<^verbatim>\<open>add_equality_block\<close> gives the bordered system for every matrix over the degrees of
  freedom that comes with one right-hand side per row.
\<close>

lemma masked_get_subset: "set (masked_get msk xs) \<subseteq> set xs"
  by (auto simp add: masked_get_def dest: set_zip_rightD)

lemma equality_entries_ok:
  assumes "eq_block_ok n k e"
  shows "length (fst (snd (equality_entries e))) = length (fst (equality_entries e))
    \<and> length (snd (snd (equality_entries e))) = length (fst (equality_entries e))
    \<and> (\<forall>x\<in>set (fst (snd (equality_entries e))). 0 \<le> x \<and> x < int k)
    \<and> (\<forall>x\<in>set (snd (snd (equality_entries e))). 0 \<le> x \<and> x < int n)"
proof -
  let ?keep = "map (\<lambda>x. \<not> feq x (Fin 0)) (eqA e)"
  from assms have lc: "length (eq_col e) = length (eqA e)" and lr: "length (eq_row e) = length (eqA e)"
    and cols: "\<forall>j\<in>set (eq_col e). 0 \<le> j \<and> j < int n" and rows: "\<forall>i\<in>set (eq_row e). i < k"
    by (simp_all add: eq_block_ok_def list_all_iff)
  have "length (masked_get ?keep (map int (eq_row e))) = length (masked_get ?keep (eqA e))"
    by (simp add: masked_get_length lr)
  moreover have "length (masked_get ?keep (eq_col e)) = length (masked_get ?keep (eqA e))"
    by (simp add: masked_get_length lc)
  moreover have "\<forall>x\<in>set (masked_get ?keep (map int (eq_row e))). 0 \<le> x \<and> x < int k"
    using masked_get_subset [of ?keep "map int (eq_row e)"] rows by auto
  moreover have "\<forall>x\<in>set (masked_get ?keep (eq_col e)). 0 \<le> x \<and> x < int n"
    using masked_get_subset [of ?keep "eq_col e"] cols by auto
  ultimately show ?thesis by (simp add: equality_entries_def Let_def)
qed

lemma concat_entries_ok:
  assumes "\<forall>t\<in>set ts. length (fst (snd t)) = length (fst t) \<and> length (snd (snd t)) = length (fst t)
      \<and> (\<forall>x\<in>set (fst (snd t)). P x) \<and> (\<forall>x\<in>set (snd (snd t)). Q x)"
  shows "length (concat (map (fst \<circ> snd) ts)) = length (concat (map fst ts))
    \<and> length (concat (map (snd \<circ> snd) ts)) = length (concat (map fst ts))
    \<and> (\<forall>x\<in>set (concat (map (fst \<circ> snd) ts)). P x)
    \<and> (\<forall>x\<in>set (concat (map (snd \<circ> snd) ts)). Q x)"
  using assms by (induction ts) auto

lemma coo_matrix_ok:
  assumes "length rws = length vals" and "length cls = length vals"
    and "\<forall>x\<in>set rws. 0 \<le> x \<and> x < int R" and "\<forall>x\<in>set cls. 0 \<le> x \<and> x < int N"
  shows "\<exists>m. coo_matrix vals rws cls (R, N) = Inr m \<and> nrows m = R \<and> ncols m = N"
proof -
  have "\<not> list_ex (\<lambda>r. r < 0 \<or> int R \<le> r) rws"
    using assms(3) by (force simp add: list_ex_iff)
  moreover have "\<not> list_ex (\<lambda>k. k < 0 \<or> int N \<le> k) cls"
    using assms(4) by (force simp add: list_ex_iff)
  ultimately show ?thesis using assms(1,2) by (simp add: coo_matrix_def)
qed

lemma equality_C_ok:
  assumes "eq_registry_ok s"
  shows "\<exists>C. equality_C s = Inr C \<and> nrows C = eq_const_c s \<and> ncols C = nx s"
proof -
  define es where "es = map (equality_entries \<circ> snd) (equal_constraints s)"
  have "\<forall>t\<in>set es. length (fst (snd t)) = length (fst t) \<and> length (snd (snd t)) = length (fst t)
      \<and> (\<forall>x\<in>set (fst (snd t)). 0 \<le> x \<and> x < int (eq_const_c s))
      \<and> (\<forall>x\<in>set (snd (snd t)). 0 \<le> x \<and> x < int (nx s))"
  proof
    fix t assume "t \<in> set es"
    then obtain p where p: "p \<in> set (equal_constraints s)" and t: "t = equality_entries (snd p)"
      by (auto simp add: es_def)
    from assms p have "eq_block_ok (nx s) (eq_const_c s) (snd p)"
      by (simp add: eq_registry_ok_def list_all_iff)
    from equality_entries_ok [OF this] show "length (fst (snd t)) = length (fst t)
      \<and> length (snd (snd t)) = length (fst t)
      \<and> (\<forall>x\<in>set (fst (snd t)). 0 \<le> x \<and> x < int (eq_const_c s))
      \<and> (\<forall>x\<in>set (snd (snd t)). 0 \<le> x \<and> x < int (nx s))"
      unfolding t .
  qed
  from concat_entries_ok [OF this]
  have "length (concat (map (fst \<circ> snd) es)) = length (concat (map fst es))"
    and "length (concat (map (snd \<circ> snd) es)) = length (concat (map fst es))"
    and "\<forall>x\<in>set (concat (map (fst \<circ> snd) es)). 0 \<le> x \<and> x < int (eq_const_c s)"
    and "\<forall>x\<in>set (concat (map (snd \<circ> snd) es)). 0 \<le> x \<and> x < int (nx s)"
    by blast+
  from coo_matrix_ok [OF this] obtain m where
    "coo_matrix (concat (map fst es)) (concat (map (fst \<circ> snd) es))
           (concat (map (snd \<circ> snd) es)) (eq_const_c s, nx s) = Inr m"
    and "nrows m = eq_const_c s" "ncols m = nx s" by blast
  then show ?thesis unfolding equality_C_def Let_def es_def [symmetric] by (simp add: ebind_def)
qed

lemma add_equality_block_ok:
  assumes ok: "eq_registry_ok s" and ne: "equal_constraints s \<noteq> []"
    and cols: "ncols A = nx s" and len: "length B = nrows A"
  shows "\<exists>M rhs. add_equality_block A B s = Inr (Some (M, rhs))
     \<and> nrows M = nx s + eq_const_c s \<and> ncols M = nx s + eq_const_c s
     \<and> length rhs = nx s + length (equality_d s)"
proof -
  from equality_C_ok [OF ok] obtain C where C: "equality_C s = Inr C"
    and Cs: "nrows C = eq_const_c s" "ncols C = nx s" by blast
  show ?thesis
    using ne cols len C Cs
    by (simp add: add_equality_block_def ebind_def sp_dot_def sp_dot_vec_def sp_bmat_def
        sp_transpose_def)
qed

lemma dict_set_all:
  "list_all P ps \<Longrightarrow> P (k, v) \<Longrightarrow> list_all P (dict_set k v ps)"
  by (induction ps) auto

lemma dict_set_not_Nil [simp]: "dict_set k v ps \<noteq> []"
  by (cases ps) simp_all

lemma nx_equal_constraints [simp]: "nx (s\<lparr>equal_constraints := x\<rparr>) = nx s"
  by (simp add: nx_def region_def)

lemma nx_eq_const_c [simp]: "nx (s\<lparr>eq_const_c := x\<rparr>) = nx s"
  by (simp add: nx_def region_def)

lemma eq_block_ok_mono: "eq_block_ok n k e \<Longrightarrow> k \<le> k' \<Longrightarrow> eq_block_ok n k' e"
  by (auto simp add: eq_block_ok_def list_all_iff)

text \<open>
  C5. When \<^verbatim>\<open>add_equality_constraints\<close> returns, the node indices whose entry in
  \<open>gi\<close> is the sentinel \<open>-1\<close> are those of inactive nodes, and they are dropped without
  a log entry. The block stored under the given name holds, for the kept pairs in their
  order, the coefficient \<open>1\<close>, the target value, the rank of the node among the active
  nodes as column (a number in \<open>[0, nx)\<close>) and the rows \<open>eq_const_c, eq_const_c + 1, ...\<close>.
  The counter \<open>eq_const_c\<close> grows by the number of kept pairs, and it is the number of
  rows of the matrix \<open>C\<close> and of the border of the system built by
  \<^verbatim>\<open>add_equality_block\<close>: after the call \<^verbatim>\<open>add_equality_block\<close> never answers
  \<^verbatim>\<open>None\<close>, and when the equality constraints registered before were well shaped (as
  those registered by this method are) it returns, for every matrix \<open>A\<close> over the \<open>nx\<close>
  degrees of freedom with one right-hand side per row, a square system of
  \<open>nx + eq_const_c\<close> rows.
\<close>

theorem add_equality_constraints_keeps_active:
  assumes "add_equality_constraints node_idx values name s = Inr s'"
  shows "let n = n_nodes (support s);
             kept = filter (\<lambda>(i, v). region s ! position n i) (zip node_idx values);
             rank = (\<lambda>i. int (length (filter (\<lambda>m. m) (take (position n i) (region s)))))
         in (\<forall>i\<in>set node_idx. (gi s ! position n i = - 1) = (\<not> region s ! position n i))
          \<and> map_of (equal_constraints s') name =
              Some \<lparr>eqA = replicate (length kept) (Fin 1), eqB = map snd kept,
                    eq_col = map (\<lambda>(i, v). rank i) kept,
                    eq_row = [eq_const_c s ..< eq_const_c s + length kept]\<rparr>
          \<and> (\<forall>(i, v)\<in>set kept. 0 \<le> rank i \<and> rank i < int (nx s))
          \<and> eq_const_c s' = eq_const_c s + length kept
          \<and> logged s' = logged s
          \<and> nx s' = nx s
          \<and> (\<forall>C. equality_C s' = Inr C \<longrightarrow> nrows C = eq_const_c s' \<and> ncols C = nx s')
          \<and> (\<forall>A B. add_equality_block A B s' \<noteq> Inr None)
          \<and> (\<forall>A B M rhs. add_equality_block A B s' = Inr (Some (M, rhs)) \<longrightarrow>
                nrows M = ncols A + eq_const_c s')
          \<and> (eq_registry_ok s \<longrightarrow>
                eq_registry_ok s'
              \<and> (\<forall>A B. ncols A = nx s' \<and> length B = nrows A \<longrightarrow>
                   (\<exists>M rhs. add_equality_block A B s' = Inr (Some (M, rhs))
                      \<and> nrows M = nx s' + eq_const_c s' \<and> ncols M = nx s' + eq_const_c s'
                      \<and> length rhs = nx s' + length (equality_d s'))))"
proof -
  define n where "n = n_nodes (support s)"
  define g where "g = (\<lambda>i. gi s ! position n i)"
  define rank where "rank = (\<lambda>i. int (length (filter (\<lambda>m. m) (take (position n i) (region s)))))"
  define kept where "kept = filter (\<lambda>(i, v). region s ! position n i) (zip node_idx values)"
  define kept' where "kept' = filter (\<lambda>(i, v). g i \<noteq> - 1) (zip node_idx values)"
  define blk where "blk = \<lparr>eqA = replicate (length kept) (Fin 1), eqB = map snd kept,
                    eq_col = map (\<lambda>(i, v). rank i) kept,
                    eq_row = [eq_const_c s ..< eq_const_c s + length kept]\<rparr>"
  note facts = add_equality_constraints_Inr [OF assms]
  have pos: "position n i < n" if "i \<in> set node_idx" for i
    using facts(1) that by (simp add: position_less n_def)
  have sent: "(g i = - 1) = (\<not> region s ! position n i)" if "i \<in> set node_idx" for i
    using pos [OF that] by (simp add: g_def gi_sentinel n_def)
  have kk: "kept' = kept"
    unfolding kept'_def kept_def
    by (rule filter_cong [OF refl]) (auto dest!: set_zip_leftD simp add: sent)
  have act: "region s ! position n i \<and> i \<in> set node_idx" if "(i, v) \<in> set kept" for i v
    using that by (auto simp add: kept_def dest: set_zip_leftD)
  have gr: "g i = rank i" if "(i, v) \<in> set kept" for i v
    using act [OF that] pos [of i] by (simp add: g_def rank_def gi_nth n_def)
  have cols: "map (\<lambda>(i, v). g i) kept = map (\<lambda>(i, v). rank i) kept"
    by (rule map_cong [OF refl]) (auto simp add: gr)
  have bound: "0 \<le> rank i \<and> rank i < int (nx s)" if "(i, v) \<in> set kept" for i v
    using act [OF that] pos [of i]
    by (simp add: rank_def nx_count rank_less n_def)
  have s': "s' = s\<lparr>equal_constraints := dict_set name blk (equal_constraints s),
                eq_const_c := eq_const_c s + length kept\<rparr>"
  proof -
    have "s' = s\<lparr>equal_constraints :=
                  dict_set name
                    \<lparr>eqA = replicate (length kept') (Fin 1),
                     eqB = map snd kept',
                     eq_col = map (\<lambda>(i, v). g i) kept',
                     eq_row = [eq_const_c s ..< eq_const_c s + length kept']\<rparr>
                    (equal_constraints s),
                eq_const_c := eq_const_c s + length kept'\<rparr>"
      unfolding kept'_def g_def n_def by (rule facts(3))
    then show ?thesis by (simp only: kk cols blk_def)
  qed
  have 1: "\<forall>i\<in>set node_idx. (gi s ! position n i = - 1) = (\<not> region s ! position n i)"
    using sent by (simp add: g_def)
  have 2: "map_of (equal_constraints s') name = Some blk"
    by (simp add: s' map_of_dict_set)
  have 3: "\<forall>(i, v)\<in>set kept. 0 \<le> rank i \<and> rank i < int (nx s)"
    using bound by auto
  have 4: "eq_const_c s' = eq_const_c s + length kept" and 5: "logged s' = logged s"
    and nx: "nx s' = nx s"
    by (simp_all add: s')
  have 6: "\<forall>C. equality_C s' = Inr C \<longrightarrow> nrows C = eq_const_c s' \<and> ncols C = nx s'"
    by (simp add: equality_C_shape)
  have ne: "equal_constraints s' \<noteq> []" by (simp add: s')
  then have 7: "\<forall>A B. add_equality_block A B s' \<noteq> Inr None"
    by (auto simp add: add_equality_block_def ebind_def split: sum.splits)
  have 8: "\<forall>A B M rhs. add_equality_block A B s' = Inr (Some (M, rhs)) \<longrightarrow>
                nrows M = ncols A + eq_const_c s'"
    by (auto dest: add_equality_block_shape)
  have 9: "eq_registry_ok s'
      \<and> (\<forall>A B. ncols A = nx s' \<and> length B = nrows A \<longrightarrow>
            (\<exists>M rhs. add_equality_block A B s' = Inr (Some (M, rhs))
               \<and> nrows M = nx s' + eq_const_c s' \<and> ncols M = nx s' + eq_const_c s'
               \<and> length rhs = nx s' + length (equality_d s')))" if ok: "eq_registry_ok s"
  proof -
    have new: "eq_block_ok (nx s) (eq_const_c s + length kept) blk"
      using bound by (auto simp add: eq_block_ok_def blk_def list_all_iff)
    have old: "list_all (\<lambda>p. eq_block_ok (nx s) (eq_const_c s + length kept) (snd p)) (equal_constraints s)"
      using ok by (auto simp add: eq_registry_ok_def list_all_iff intro: eq_block_ok_mono)
    have ok': "eq_registry_ok s'"
      unfolding eq_registry_ok_def s' using dict_set_all [OF old, of name blk] new by simp
    from add_equality_block_ok [OF ok' ne] ok' show ?thesis by blast
  qed
  from 1 2 3 4 5 nx 6 7 8 9 show ?thesis
    unfolding Let_def n_def kept_def rank_def blk_def by blast
qed

text \<open>
  The witness: on the region that leaves node \<open>0\<close> out, fixing the nodes \<open>0\<close>, \<open>2\<close> and
  \<open>-2\<close> drops the first and keeps the other two. The matrix \<open>C\<close> has the two rows
  \<open>x\<^sub>1 = 7\<close> and \<open>x\<^sub>0 = 9\<close>, and the system built around the one soft constraint
  \<open>x\<^sub>0 = 2\<close> has four rows and four columns.
\<close>

lemma region_s_tail: "region s_tail = [False, True, True]"
  by (simp add: region_def s_tail_def s_fresh_def DiscreteInterpolator_def sp3_def)

lemma n_nodes_s_tail: "n_nodes (support s_tail) = 3"
  by (simp add: n_nodes_def s_tail_def s_fresh_def DiscreteInterpolator_def sp3_def)

lemma gi_s_tail: "gi s_tail = [- 1, 0, 1]"
  by (simp add: gi_def nx_count region_s_tail n_nodes_s_tail numeral_3_eq_3 upt_rec)

lemma add_equality_s_tail:
  "add_equality_constraints [0, 2, - 2] [Fin 5, Fin 7, Fin 9] ''fix'' s_tail = Inr s_eq"
proof -
  have t: "np_take (gi s_tail) [0, 2, - 2] = Inr [- 1, 1, 0]"
    by (simp add: gi_s_tail np_index_def ebind_def)
  have z: "eq_const_c s_tail = 0" "equal_constraints s_tail = []"
    by (simp_all add: s_tail_def s_fresh_def DiscreteInterpolator_def)
  show ?thesis
    unfolding add_equality_constraints_def t
    by (simp add: ebind_def masked_get_def s_eq_def z)
qed

lemma nx_s_eq: "nx s_eq = 2"
  by (simp add: nx_count region_def s_eq_def s_tail_def s_fresh_def DiscreteInterpolator_def sp3_def)

lemma tocsr_C:
  "tocsr \<lparr>nrows = 2, ncols = 2, entries = [(0, Suc 0, Fin 1), (Suc 0, 0, Fin 1)]\<rparr>
     = \<lparr>nrows = 2, ncols = 2, entries = [(0, Suc 0, Fin 1), (Suc 0, 0, Fin 1)]\<rparr>"
  by (simp add: tocsr_def sum_duplicates_def sp_at_def upt_rec numeral_2_eq_2)

lemma equality_C_s_eq:
  "equality_C s_eq = Inr \<lparr>nrows = 2, ncols = 2, entries = [(0, 1, Fin 1), (1, 0, Fin 1)]\<rparr>"
proof -
  have es: "map (equality_entries \<circ> snd) (equal_constraints s_eq) = [([Fin 1, Fin 1], [0, 1], [1, 0])]"
    by (simp add: equality_entries_def masked_get_def s_eq_def)
  have k: "eq_const_c s_eq = 2" by (simp add: s_eq_def)
  have coo: "coo_matrix [Fin 1, Fin 1] [0, 1] [1, 0] (2, 2)
      = Inr \<lparr>nrows = 2, ncols = 2, entries = [(0, 1, Fin 1), (1, 0, Fin 1)]\<rparr>"
    by (simp add: coo_matrix_def)
  show ?thesis
    unfolding equality_C_def es Let_def k nx_s_eq by (simp add: coo ebind_def tocsr_C)
qed

lemma add_equality_block_s_eq:
  "add_equality_block A_eq [Fin 2] s_eq =
     Inr (Some (\<lparr>nrows = 4, ncols = 4,
                  entries = [(0, 0, Fin 1), (1, 2, Fin 1), (0, 3, Fin 1), (2, 1, Fin 1), (3, 0, Fin 1)]\<rparr>,
                [Fin 2, Fin 0, Fin 7, Fin 9]))"
proof -
  have e: "equal_constraints s_eq \<noteq> []" by (simp add: s_eq_def)
  have d: "equality_d s_eq = [Fin 7, Fin 9]" by (simp add: equality_d_def s_eq_def)
  show ?thesis
    using e
    by (simp add: add_equality_block_def equality_C_s_eq d ebind_def A_eq_def sp_dot_def
        sp_dot_vec_def sp_transpose_def sp_bmat_def upt_rec numeral_2_eq_2)
qed

theorem add_equality_constraints_keeps_active_witness:
  "add_equality_constraints [0, 2, - 2] [Fin 5, Fin 7, Fin 9] ''fix'' s_tail = Inr s_eq
   \<and> gi s_tail = [- 1, 0, 1]
   \<and> map_of (equal_constraints s_eq) ''fix'' =
       Some \<lparr>eqA = [Fin 1, Fin 1], eqB = [Fin 7, Fin 9], eq_col = [1, 0], eq_row = [0, 1]\<rparr>
   \<and> eq_const_c s_tail = 0 \<and> eq_const_c s_eq = 2
   \<and> eq_registry_ok s_tail \<and> eq_registry_ok s_eq
   \<and> equality_C s_eq = Inr \<lparr>nrows = 2, ncols = 2, entries = [(0, 1, Fin 1), (1, 0, Fin 1)]\<rparr>
   \<and> ncols A_eq = nx s_eq \<and> length [Fin 2] = nrows A_eq
   \<and> add_equality_block A_eq [Fin 2] s_eq =
       Inr (Some (\<lparr>nrows = 4, ncols = 4,
                    entries = [(0, 0, Fin 1), (1, 2, Fin 1), (0, 3, Fin 1), (2, 1, Fin 1), (3, 0, Fin 1)]\<rparr>,
                  [Fin 2, Fin 0, Fin 7, Fin 9]))
   \<and> (\<exists>M rhs. add_equality_block A_eq [Fin 2] s_eq = Inr (Some (M, rhs))
         \<and> nrows M = 4 \<and> ncols M = 4 \<and> length rhs = 4)"
proof -
  have z: "eq_const_c s_tail = 0"
    by (simp add: s_tail_def s_fresh_def DiscreteInterpolator_def)
  have ok: "eq_registry_ok s_tail"
    by (simp add: eq_registry_ok_def s_tail_def s_fresh_def DiscreteInterpolator_def)
  have sh: "ncols A_eq = nx s_eq" "length [Fin 2] = nrows A_eq"
    by (simp_all add: A_eq_def nx_s_eq)
  have d: "equality_d s_eq = [Fin 7, Fin 9]" by (simp add: equality_d_def s_eq_def)
  note main = add_equality_constraints_keeps_active [OF add_equality_s_tail]
  from main have a: "map_of (equal_constraints s_eq) ''fix'' =
       Some \<lparr>eqA = [Fin 1, Fin 1], eqB = [Fin 7, Fin 9], eq_col = [1, 0], eq_row = [0, 1]\<rparr>
     \<and> eq_const_c s_eq = 2"
    by (simp add: Let_def n_nodes_s_tail region_s_tail position_def z upt_rec)
  from main ok have b: "eq_registry_ok s_eq
     \<and> (\<forall>A B. ncols A = nx s_eq \<and> length B = nrows A \<longrightarrow>
           (\<exists>M rhs. add_equality_block A B s_eq = Inr (Some (M, rhs))
              \<and> nrows M = nx s_eq + eq_const_c s_eq \<and> ncols M = nx s_eq + eq_const_c s_eq
              \<and> length rhs = nx s_eq + length (equality_d s_eq)))"
    unfolding Let_def by blast
  then have "\<exists>M rhs. add_equality_block A_eq [Fin 2] s_eq = Inr (Some (M, rhs))
         \<and> nrows M = nx s_eq + eq_const_c s_eq \<and> ncols M = nx s_eq + eq_const_c s_eq
         \<and> length rhs = nx s_eq + length (equality_d s_eq)"
    using sh by blast
  with a have c: "\<exists>M rhs. add_equality_block A_eq [Fin 2] s_eq = Inr (Some (M, rhs))
         \<and> nrows M = 4 \<and> ncols M = 4 \<and> length rhs = 4"
    by (simp add: nx_s_eq d)
  from add_equality_s_tail gi_s_tail a z ok b equality_C_s_eq sh add_equality_block_s_eq c
  show ?thesis by blast
qed

subsection \<open>The shape of the assembled matrix\<close>

text \<open>
  Every call of \<^verbatim>\<open>add_constraints_to_least_squares\<close> that returns keeps the registry
  well shaped: the block it stores has \<open>nx\<close> columns, as many weights as rows and, when it
  has a row, as many right-hand sides as rows.
\<close>

lemma normalise_rows_length:
  "normalise_rows linalg_norm A B = (A', B') \<Longrightarrow> length A' = length A \<and> length B' = length B"
  by (auto simp add: normalise_rows_def Let_def)

lemma rows2_length [simp]: "length (rows2 R C xs) = R"
  by (simp add: rows2_def)

lemma weight_array_length: "weight_array wt n = Inr ws \<Longrightarrow> length ws = n"
  by (auto simp add: weight_array_def ebind_def split: weight.splits if_splits sum.splits)

lemma coo_matrix_shape: "coo_matrix vals rws cls shp = Inr m \<Longrightarrow> nrows m = fst shp \<and> ncols m = snd shp"
  by (auto simp add: coo_matrix_def split: if_splits)

lemma nx_frame [simp]: "nx (s\<lparr>logged := x\<rparr>) = nx s"
  by (simp add: nx_def region_def)

lemma add_constraints_inv:
  assumes "add_constraints_to_least_squares linalg_norm A B idc wt name s = Some (Inr s')"
    and "shape idc = shape A"
  shows "\<exists>n C wt' A' B' ws name' m.
      flatten_block (shape A) (length B) wt = Inr (n, C, wt')
    \<and> (n = 0 \<or> length B = n)
    \<and> normalise_rows linalg_norm (rows2 n C (data A)) B = (A', B')
    \<and> weight_array wt' n = Inr ws
    \<and> unique_name (map fst (constraints s)) name name = Some (Inr name')
    \<and> coo_matrix (concat A') (row_index n C) (data idc) (n, nx s) = Inr m
    \<and> s' = (warn_nan name (data idc) A' B' s)
        \<lparr>constraints := dict_set name' \<lparr>matrix = tocsc m, b = B', w = ws\<rparr> (constraints s)\<rparr>"
  using assms
  by (auto simp add: add_constraints_to_least_squares_def Let_def
      split: if_splits sum.splits option.splits prod.splits)

lemma add_constraints_preserves:
  assumes "add_constraints_to_least_squares linalg_norm A B idc wt name s = Some (Inr s')"
    and "registry_ok s"
  shows "registry_ok s' \<and> nx s' = nx s"
proof (cases "shape idc = shape A")
  case False
  with assms show ?thesis
    by (auto simp add: add_constraints_to_least_squares_def registry_ok_def logger_def
        split: if_splits)
next
  case True
  from add_constraints_inv [OF assms(1) True] obtain n C wt' A' B' ws name' m where
    lb: "n = 0 \<or> length B = n"
    and nr: "normalise_rows linalg_norm (rows2 n C (data A)) B = (A', B')"
    and wa: "weight_array wt' n = Inr ws"
    and coo: "coo_matrix (concat A') (row_index n C) (data idc) (n, nx s) = Inr m"
    and s': "s' = (warn_nan name (data idc) A' B' s)
        \<lparr>constraints := dict_set name' \<lparr>matrix = tocsc m, b = B', w = ws\<rparr> (constraints s)\<rparr>"
    by blast
  have "block_ok (nx s) \<lparr>matrix = tocsc m, b = B', w = ws\<rparr>"
    using normalise_rows_length [OF nr] weight_array_length [OF wa] coo_matrix_shape [OF coo] lb
    by (auto simp add: block_ok_def)
  with assms(2) show ?thesis
    by (simp add: s' registry_ok_def dict_set_all)
qed

lemma add_all_preserves:
  "add_all linalg_norm calls s = Some (Inr s') \<Longrightarrow> registry_ok s \<Longrightarrow>
   registry_ok s' \<and> nx s' = nx s"
proof (induction calls arbitrary: s)
  case Nil
  then show ?case by simp
next
  case (Cons call calls)
  obtain A B idc wt name where call: "call = (A, B, idc, wt, name)" by (cases call) auto
  from Cons.prems(1) obtain s1 where
    a: "add_constraints_to_least_squares linalg_norm A B idc wt name s = Some (Inr s1)"
    and r: "add_all linalg_norm calls s1 = Some (Inr s')"
    by (auto simp add: call split: option.splits sum.splits)
  from add_constraints_preserves [OF a Cons.prems(2)] Cons.IH [OF r] show ?case by simp
qed

text \<open>
  On a well shaped registry the loop of \<^verbatim>\<open>build_matrix\<close> succeeds: it takes the blocks
  with a weight, in their order, and leaves the others out, right-hand side included.
\<close>

lemma build_blocks_ok:
  "list_all (block_ok n) blks \<Longrightarrow>
   \<exists>mats. build_blocks blks
       = Inr (mats, map (\<lambda>blk. map2 fmul (b blk) (w blk)) (weighted blks))
     \<and> map nrows mats = map (nrows \<circ> matrix) (weighted blks)
     \<and> list_all (\<lambda>m. ncols m = n) mats
     \<and> list_all (\<lambda>blk. length (b blk) = nrows (matrix blk) \<and> length (w blk) = nrows (matrix blk))
          (weighted blks)"
proof (induction blks)
  case Nil
  then show ?case by (simp add: weighted_def)
next
  case (Cons blk rest)
  then obtain mats where
    r: "build_blocks rest = Inr (mats, map (\<lambda>blk. map2 fmul (b blk) (w blk)) (weighted rest))"
     and 1: "map nrows mats = map (nrows \<circ> matrix) (weighted rest)"
     and 2: "list_all (\<lambda>m. ncols m = n) mats"
     and 3: "list_all (\<lambda>blk. length (b blk) = nrows (matrix blk) \<and> length (w blk) = nrows (matrix blk))
          (weighted rest)"
    by auto
  from Cons.prems have ok: "block_ok n blk" by simp
  show ?case
  proof (cases "length (w blk) = 0")
    case True
    with r 1 2 3 show ?thesis by (simp add: weighted_def)
  next
    case False
    with r 1 2 3 ok show ?thesis
      by (auto simp add: weighted_def block_ok_def ebind_def sp_multiply_def vec_multiply_def)
  qed
qed

lemma length_map2_fmul:
  "length (b blk) = nrows (matrix blk) \<and> length (w blk) = nrows (matrix blk) \<Longrightarrow>
   length (map2 fmul (b blk) (w blk)) = nrows (matrix blk)"
  by simp

lemma build_matrix_shape:
  assumes "registry_ok s"
  shows "(weighted (map snd (constraints s)) = [] \<longrightarrow> build_matrix s = Inl ValueError)
    \<and> (weighted (map snd (constraints s)) \<noteq> [] \<longrightarrow>
         (\<exists>A B. build_matrix s = Inr (A, B)
            \<and> nrows A = sum_list (map (nrows \<circ> matrix) (weighted (map snd (constraints s))))
            \<and> ncols A = nx s \<and> length B = nrows A
            \<and> B = concat (map (\<lambda>blk. map2 fmul (b blk) (w blk))
                             (weighted (map snd (constraints s))))))"
proof -
  let ?W = "weighted (map snd (constraints s))"
  let ?bs = "map (\<lambda>blk. map2 fmul (b blk) (w blk)) ?W"
  from assms have "list_all (block_ok (nx s)) (map snd (constraints s))"
    by (simp add: registry_ok_def list_all_iff)
  from build_blocks_ok [OF this] obtain mats where
    r: "build_blocks (map snd (constraints s)) = Inr (mats, ?bs)"
     and 1: "map nrows mats = map (nrows \<circ> matrix) ?W"
     and 2: "list_all (\<lambda>m. ncols m = nx s) mats"
     and 3: "list_all (\<lambda>blk. length (b blk) = nrows (matrix blk) \<and> length (w blk) = nrows (matrix blk)) ?W"
    by blast
  have e: "mats = [] \<longleftrightarrow> ?W = []"
    using 1 by (metis map_is_Nil_conv)
  have "map length ?bs = map (nrows \<circ> matrix) ?W"
    using 3 by (auto simp add: list_all_iff)
  then have l: "length (concat ?bs) = sum_list (map nrows mats)"
    unfolding 1 by (simp only: length_concat)
  show ?thesis
  proof (cases mats)
    case Nil
    with e r show ?thesis by (simp add: build_matrix_def ebind_def sp_vstack_def)
  next
    case (Cons m ms)
    from Cons e have ne: "?W \<noteq> []" by simp
    then have bne: "?bs \<noteq> []" by simp
    from Cons 2 have c: "ncols m = nx s" "list_all (\<lambda>m'. ncols m' = ncols m) ms"
      by (auto simp add: list_all_iff)
    have "np_hstack ?bs = Inr (concat ?bs)"
      using bne by (simp add: np_hstack_def split: list.splits)
    then have "build_matrix s = Inr (\<lparr>nrows = sum_list (map nrows mats), ncols = ncols m,
                    entries = stack_entries 0 mats\<rparr>, concat ?bs)"
      using r Cons c by (simp add: build_matrix_def ebind_def sp_vstack_def)
    with ne c l 1 show ?thesis by simp
  qed
qed

lemma weighted_rows:
  "list_all (block_ok n) blks \<Longrightarrow>
   sum_list (map (nrows \<circ> matrix) (weighted blks)) = sum_list (map (nrows \<circ> matrix) blks)"
  by (induction blks) (auto simp add: weighted_def block_ok_def)

text \<open>
  C7, as amended. After any sequence of calls of \<^verbatim>\<open>add_constraints_to_least_squares\<close>
  that all return, started from an empty registry, and provided at least one registered
  block has a weight array that is not empty, \<^verbatim>\<open>build_matrix\<close> returns a matrix and a
  vector. The matrix has as many rows as the blocks with a non-empty weight array have
  together (which is also the sum over all blocks, as a block with no weight has no row),
  it has \<open>nx\<close> columns, and the vector has one entry per row: it is made of the weighted
  right-hand sides of the blocks with a non-empty weight array, and holds nothing of the
  right-hand side of a block that is left out.
\<close>

theorem build_matrix_shape_after_adds:
  assumes "constraints s0 = []"
    and "add_all linalg_norm calls s0 = Some (Inr s)"
    and "weighted (map snd (constraints s)) \<noteq> []"
  shows "\<exists>A B. build_matrix s = Inr (A, B)
     \<and> nrows A = sum_list (map (nrows \<circ> matrix) (weighted (map snd (constraints s))))
     \<and> nrows A = sum_list (map (nrows \<circ> matrix \<circ> snd) (constraints s))
     \<and> ncols A = nx s
     \<and> length B = nrows A
     \<and> B = concat (map (\<lambda>blk. map2 fmul (b blk) (w blk)) (weighted (map snd (constraints s))))"
proof -
  from assms(1) have "registry_ok s0" by (simp add: registry_ok_def)
  with add_all_preserves [OF assms(2)] have ok: "registry_ok s" by simp
  then have "list_all (block_ok (nx s)) (map snd (constraints s))"
    by (simp add: registry_ok_def list_all_iff)
  from weighted_rows [OF this] build_matrix_shape [OF ok] assms(3) show ?thesis
    by auto
qed

lemma tocsc_empty:
  "tocsc \<lparr>nrows = 0, ncols = 3, entries = []\<rparr> = \<lparr>nrows = 0, ncols = 3, entries = []\<rparr>"
  by (simp add: tocsc_def sum_duplicates_def)

text \<open>
  A constraint without rows is registered with the right-hand side it came with: the mask
  of the norms is empty and selects nothing from it.
\<close>

lemma zero_rows_step:
  assumes "unique_name (map fst (constraints s)) name name = Some (Inr name')"
    and "nx s = 3" and "\<not> list_ex isnan rhs"
  shows "add_constraints_to_least_squares row_norm
       \<lparr>shape = [0, 3], data = []\<rparr> rhs \<lparr>shape = [0, 3], data = []\<rparr> (WScalar (Fin 1)) name s =
     Some (Inr (s\<lparr>constraints := dict_set name'
            \<lparr>matrix = \<lparr>nrows = 0, ncols = 3, entries = []\<rparr>, b = rhs, w = []\<rparr> (constraints s)\<rparr>))"
proof -
  let ?E = "\<lparr>shape = [0, 3], data = []\<rparr>"
  have w: "warn_nan name [] [] rhs s = s" using assms(3) by (simp add: warn_nan_def)
  have "add_constraints_to_least_squares row_norm ?E rhs ?E (WScalar (Fin 1)) name s
    = Some (Inr ((warn_nan name (data (?E :: int ndarray)) [] rhs s)
        \<lparr>constraints := dict_set name'
            \<lparr>matrix = tocsc \<lparr>nrows = 0, ncols = 3, entries = []\<rparr>, b = rhs, w = []\<rparr>
            (constraints s)\<rparr>))"
  proof (rule add_constraints_step [where n = 0 and C = 3 and wt' = "WScalar (Fin 1)"])
    show "flatten_block (shape ?E) (length rhs) (WScalar (Fin 1)) = Inr (0, 3, WScalar (Fin 1))"
      by (simp add: flatten_block_def)
    show "shape (?E :: int ndarray) = shape (?E :: fl ndarray)" by simp
    show "0 = (0::nat) \<or> length rhs = 0" by simp
    show "normalise_rows row_norm (rows2 0 3 (data ?E)) rhs = ([], rhs)"
      by (simp add: normalise_rows_def rows2_def)
    show "weight_array (WScalar (Fin 1)) 0 = Inr []"
      by (simp add: weight_array_def ebind_def)
    show "unique_name (map fst (constraints s)) name name = Some (Inr name')" by (rule assms)
    show "coo_matrix (concat []) (row_index 0 3) (data ?E) (0, nx s)
      = Inr \<lparr>nrows = 0, ncols = 3, entries = []\<rparr>"
      by (simp add: coo_matrix_def row_index_def assms)
  qed
  then show ?thesis by (simp add: w tocsc_empty)
qed

lemma constraints_s_fresh: "constraints s_fresh = []"
  by (simp add: s_fresh_def DiscreteInterpolator_def)

text \<open>
  C7 as stated fails when no registered block has a weight: after the one accepted
  constraint without rows, \<^verbatim>\<open>build_matrix\<close> has nothing to stack and
  \<^verbatim>\<open>sparse.vstack\<close> raises ValueError, so no matrix of \<open>0\<close> rows and \<open>nx\<close> columns
  is assembled.
\<close>

theorem build_matrix_no_rows_raises:
  "add_all row_norm [no_rows ''empty''] s_fresh = Some (Inr s_norows)
   \<and> build_matrix s_norows = Inl ValueError"
proof -
  have u: "unique_name (map fst (constraints s_fresh)) ''empty'' ''empty'' = Some (Inr ''empty'')"
    by (simp add: unique_name_free constraints_s_fresh)
  have "add_all row_norm [no_rows ''empty''] s_fresh = Some (Inr s_norows)"
    unfolding no_rows_def
    by (simp add: zero_rows_step [OF u nx_s_fresh] constraints_s_fresh s_norows_def blk_none_def)
  moreover have "build_matrix s_norows = Inl ValueError"
    by (simp add: build_matrix_def s_norows_def blk_none_def ebind_def sp_vstack_def)
  ultimately show ?thesis by simp
qed

lemma add_all_s_three:
  "add_all row_norm [one_row (Fin 4) ''grad'', lone_rhs ''empty'', one_row (Fin 4) ''grad''] s_fresh
     = Some (Inr s_three)"
proof -
  let ?g = "one_row (Fin 4) ''grad''"
  let ?e = "lone_rhs ''empty''"
  let ?s1 = "s_fresh\<lparr>constraints := [(''grad'', blk_one)]\<rparr>"
  let ?s2 = "s_fresh\<lparr>constraints := [(''grad'', blk_one), (''empty'', blk_lone)]\<rparr>"
  have u1: "unique_name (map fst (constraints s_fresh)) ''grad'' ''grad'' = Some (Inr ''grad'')"
    by (simp add: unique_name_free constraints_s_fresh)
  have u2: "unique_name (map fst (constraints ?s1)) ''empty'' ''empty'' = Some (Inr ''empty'')"
    by (simp add: unique_name_free)
  have u3: "unique_name (map fst (constraints ?s2)) ''grad'' ''grad'' = Some (Inr ''grad_0'')"
    by code_simp
  have n1: "nx ?s1 = 3" and n2: "nx ?s2 = 3" by (simp_all add: nx_s_fresh)
  have e1: "add_all row_norm [?g, ?e, ?g] s_fresh = add_all row_norm [?e, ?g] ?s1"
    by (simp add: one_row_step [OF u1 nx_s_fresh] warn_finite constraints_s_fresh blk_one_b)
  have e2: "add_all row_norm [?e, ?g] ?s1 = add_all row_norm [?g] ?s2"
    unfolding lone_rhs_def by (simp add: zero_rows_step [OF u2 n1] blk_lone_def)
  have e3: "add_all row_norm [?g] ?s2 = Some (Inr s_three)"
    by (simp add: one_row_step [OF u3 n2] warn_finite blk_one_b s_three_def)
  show ?thesis by (simp only: e1 e2 e3)
qed

lemma build_s_three:
  "build_matrix s_three =
     Inr (\<lparr>nrows = 2, ncols = 3, entries = [(0, 0, Fin 1), (1, 0, Fin 1)]\<rparr>, [Fin 2, Fin 2])"
  by (simp add: build_matrix_def s_three_def s_fresh_def DiscreteInterpolator_def blk_one_def
      blk_lone_def ebind_def sp_multiply_def vec_multiply_def sp_vstack_def np_hstack_def)

text \<open>
  The witness: two constraints of one row, \<open>x\<^sub>0 = 2\<close> each, around a constraint without
  rows that came with the right-hand side \<open>9\<close>, give a matrix of two rows and three
  columns and the vector \<open>(2, 2)\<close>: the \<open>9\<close> is not in it.
\<close>

theorem build_matrix_shape_after_adds_witness:
  "constraints s_fresh = []
   \<and> add_all row_norm [one_row (Fin 4) ''grad'', lone_rhs ''empty'', one_row (Fin 4) ''grad''] s_fresh
       = Some (Inr s_three)
   \<and> map snd (constraints s_three) = [blk_one, blk_lone, blk_one]
   \<and> b blk_lone = [Fin 9] \<and> w blk_lone = []
   \<and> weighted (map snd (constraints s_three)) = [blk_one, blk_one]
   \<and> build_matrix s_three =
       Inr (\<lparr>nrows = 2, ncols = 3, entries = [(0, 0, Fin 1), (1, 0, Fin 1)]\<rparr>, [Fin 2, Fin 2])
   \<and> (\<exists>A B. build_matrix s_three = Inr (A, B) \<and> nrows A = 2 \<and> ncols A = 3 \<and> length B = 2
         \<and> B = [Fin 2, Fin 2])"
proof -
  have cs: "map snd (constraints s_three) = [blk_one, blk_lone, blk_one]"
    by (simp add: s_three_def)
  have wt: "weighted (map snd (constraints s_three)) = [blk_one, blk_one]"
    by (simp add: weighted_def s_three_def blk_one_def blk_lone_def)
  then have ne: "weighted (map snd (constraints s_three)) \<noteq> []" by simp
  have n: "nx s_three = 3" by (simp add: s_three_def nx_s_fresh)
  have l: "b blk_lone = [Fin 9]" "w blk_lone = []" by (simp_all add: blk_lone_def)
  from build_matrix_shape_after_adds [OF constraints_s_fresh add_all_s_three ne]
  have "\<exists>A B. build_matrix s_three = Inr (A, B) \<and> nrows A = 2 \<and> ncols A = 3 \<and> length B = 2
         \<and> B = [Fin 2, Fin 2]"
    by (auto simp add: wt n blk_one_def)
  with constraints_s_fresh add_all_s_three cs l wt build_s_three show ?thesis by simp
qed

subsection \<open>Row normalisation\<close>

text \<open>
  The triples of row \<open>i\<close> of the matrix in coordinate form are the coefficients of the
  row with their column indices, in the order of the row.
\<close>

lemma normalise_rows_nth:
  assumes "normalise_rows linalg_norm A B = (A', B')" and "i < length A"
  shows "A' ! i = (let row = A ! i; l = linalg_norm row;
                       row1 = (if list_ex isnan row then map (\<lambda>_. Fin 0) row else row)
                   in if fgt0 l then map (\<lambda>x. fdiv x l) row1 else row1)"
    and "i < length B \<Longrightarrow>
         B' ! i = (if fgt0 (linalg_norm (A ! i)) then fdiv (B ! i) (linalg_norm (A ! i)) else B ! i)"
  using assms by (auto simp add: normalise_rows_def Let_def nth_append)

lemma filter_zip_none:
  "(\<And>x. x \<in> set xs \<Longrightarrow> \<not> P x) \<Longrightarrow> filter (\<lambda>e. P (fst e)) (zip xs ys) = []"
  by (auto simp add: filter_empty_conv dest: set_zip_leftD)

lemma filter_zip_all:
  "(\<And>x. x \<in> set xs \<Longrightarrow> P x) \<Longrightarrow> filter (\<lambda>e. P (fst e)) (zip xs ys) = zip xs ys"
  by (auto simp add: filter_id_conv dest: set_zip_leftD)

lemma stored_row:
  "list_all (\<lambda>r. length r = C) rows \<Longrightarrow> length cls = length rows * C \<Longrightarrow> i < length rows \<Longrightarrow>
   map snd
     (filter (\<lambda>e. fst e = k + i)
        (zip (concat (map (\<lambda>j. replicate C j) [k ..< k + length rows])) (zip cls (concat rows))))
   = zip (take C (drop (i * C) cls)) (rows ! i)"
proof (induction rows arbitrary: k cls i)
  case Nil
  then show ?case by simp
next
  case (Cons r rs)
  let ?R = "concat (map (\<lambda>j. replicate C j) [Suc k ..< Suc k + length rs])"
  let ?Z1 = "zip (take C cls) r"
  let ?Z2 = "zip (drop C cls) (concat rs)"
  from Cons.prems have lr: "length r = C" and rs: "list_all (\<lambda>r. length r = C) rs"
    and lc: "length cls = C + length rs * C" by simp_all
  have up: "[k ..< k + length (r # rs)] = k # [Suc k ..< Suc k + length rs]"
    by (subst upt_rec) simp
  have z: "zip cls (concat (r # rs)) = ?Z1 @ ?Z2"
  proof -
    have "zip (take C cls @ drop C cls) (r @ concat rs) = ?Z1 @ ?Z2"
      by (rule zip_append) (simp add: lr lc)
    then show ?thesis by simp
  qed
  have l1: "length ?Z1 = C" by (simp add: lr lc)
  have split: "zip (concat (map (\<lambda>j. replicate C j) [k ..< k + length (r # rs)])) (zip cls (concat (r # rs)))
      = zip (replicate C k) ?Z1 @ zip ?R ?Z2"
  proof -
    have "zip (replicate C k @ ?R) (?Z1 @ ?Z2) = zip (replicate C k) ?Z1 @ zip ?R ?Z2"
      by (rule zip_append) (simp add: lr lc)
    moreover have "concat (map (\<lambda>j. replicate C j) (k # [Suc k ..< Suc k + length rs]))
        = replicate C k @ ?R"
      by (simp only: list.map concat.simps)
    ultimately show ?thesis unfolding up z by (simp only:)
  qed
  have later: "x \<in> set ?R \<Longrightarrow> Suc k \<le> x" for x by auto
  show ?case
  proof (cases i)
    case 0
    have a: "filter (\<lambda>e. fst e = k + i) (zip (replicate C k) ?Z1) = zip (replicate C k) ?Z1"
    proof (rule filter_zip_all [where P = "\<lambda>x. x = k + i"])
      fix x assume "x \<in> set (replicate C k)"
      then show "x = k + i" using 0 by simp
    qed
    have b: "filter (\<lambda>e. fst e = k + i) (zip ?R ?Z2) = []"
    proof (rule filter_zip_none [where P = "\<lambda>x. x = k + i"])
      fix x assume "x \<in> set ?R"
      from later [OF this] show "\<not> x = k + i" using 0 by simp
    qed
    have "map snd (zip (replicate C k) ?Z1) = ?Z1"
      by (rule map_snd_zip) (simp add: lr lc)
    with a b 0 show ?thesis unfolding split by simp
  next
    case (Suc i')
    have a: "filter (\<lambda>e. fst e = k + i) (zip (replicate C k) ?Z1) = []"
    proof (rule filter_zip_none [where P = "\<lambda>x. x = k + i"])
      fix x assume "x \<in> set (replicate C k)"
      then show "\<not> x = k + i" using Suc by simp
    qed
    from Cons.prems Suc have i': "i' < length rs" by simp
    have lc': "length (drop C cls) = length rs * C" by (simp add: lc)
    have "map snd (filter (\<lambda>e. fst e = Suc k + i') (zip ?R ?Z2))
        = zip (take C (drop (i' * C) (drop C cls))) (rs ! i')"
      by (rule Cons.IH [OF rs lc' i'])
    moreover have "drop (i' * C) (drop C cls) = drop (Suc i' * C) cls"
      by (simp add: add.commute)
    ultimately show ?thesis unfolding split using Suc a by simp
  qed
qed

lemma filter_conj_snd:
  "map (\<lambda>e. snd (snd e)) (filter (\<lambda>e. fst e = i \<and> fst (snd e) = j) es)
     = map snd (filter (\<lambda>p. fst p = j) (map snd (filter (\<lambda>e. fst e = i) es)))"
  by (induction es) auto

lemma at_column_nat:
  "\<forall>c\<in>set cols. 0 \<le> c \<Longrightarrow>
   map snd (filter (\<lambda>p. fst p = j) (zip (map nat cols) row)) = at_column cols row j"
proof (induction cols arbitrary: row)
  case Nil
  then show ?case by (simp add: at_column_def)
next
  case (Cons c cols)
  then show ?case by (cases row) (auto simp add: at_column_def)
qed

lemma coo_rows:
  assumes coo: "coo_matrix (concat rows) (row_index (length rows) C) cls (length rows, N) = Inr m"
    and len: "list_all (\<lambda>r. length r = C) rows" and i: "i < length rows"
  shows "sp_at m i j = at_column (take C (drop (i * C) cls)) (rows ! i) j"
proof -
  have ri: "map nat (row_index (length rows) C)
      = concat (map (\<lambda>j. replicate C j) [0 ..< 0 + length rows])"
    by (simp add: row_index_def map_concat comp_def)
  have lcat: "length (concat rows) = length rows * C"
    using len by (induction rows) simp_all
  from coo have e: "entries m = zip (map nat (row_index (length rows) C)) (zip (map nat cls) (concat rows))"
    and lc: "length cls = length (concat rows)"
    and nn: "\<forall>c\<in>set cls. 0 \<le> c"
    by (auto simp add: coo_matrix_def list_ex_iff not_less split: if_splits)
  have l: "length (map nat cls) = length rows * C" using lc lcat by simp
  have nn': "\<forall>c\<in>set (take C (drop (i * C) cls)). 0 \<le> c"
    using nn by (auto dest!: in_set_takeD in_set_dropD)
  have "sp_at m i j = map snd (filter (\<lambda>p. fst p = j)
        (zip (take C (drop (i * C) (map nat cls))) (rows ! i)))"
    unfolding sp_at_def filter_conj_snd e ri using stored_row [OF len l i, of 0] by simp
  also have "\<dots> = at_column (take C (drop (i * C) cls)) (rows ! i) j"
    using at_column_nat [OF nn'] by (simp add: take_map drop_map)
  finally show ?thesis .
qed

text \<open>
  The compressed form holds, for a position inside the shape, the sum of the values given
  for it, and nothing when no value was given.
\<close>

lemma sp_at_sum_duplicates:
  "distinct ps \<Longrightarrow>
   map (\<lambda>e. snd (snd e)) (filter (\<lambda>e. fst e = i \<and> fst (snd e) = j) (sum_duplicates ps m))
     = (if (i, j) \<in> set ps
        then (case sum_dups (sp_at m i j) of None \<Rightarrow> [] | Some v \<Rightarrow> [v]) else [])"
proof (induction ps)
  case Nil
  then show ?case by (simp add: sum_duplicates_def)
next
  case (Cons p ps)
  have u: "sum_duplicates (p # ps) m =
      (case sum_dups (sp_at m (fst p) (snd p)) of None \<Rightarrow> [] | Some v \<Rightarrow> [(fst p, snd p, v)])
      @ sum_duplicates ps m"
    by (simp add: sum_duplicates_def)
  from Cons.prems have d: "distinct ps" and np: "p \<notin> set ps" by simp_all
  show ?case
  proof (cases "p = (i, j)")
    case True
    with np Cons.IH [OF d] show ?thesis unfolding u by (auto split: option.splits)
  next
    case False
    then have "fst p \<noteq> i \<or> snd p \<noteq> j" by (cases p) auto
    with False Cons.IH [OF d] show ?thesis unfolding u by (auto split: option.splits)
  qed
qed

lemma positions_by_column:
  "distinct (concat (map (\<lambda>j. map (\<lambda>i. (i, j)) [0 ..< R]) [0 ..< N]))"
  by (induction N) (auto simp add: distinct_map inj_on_def)

lemma sp_at_tocsc:
  assumes "i < nrows m" and "j < ncols m"
  shows "sp_at (tocsc m) i j = (case sum_dups (sp_at m i j) of None \<Rightarrow> [] | Some v \<Rightarrow> [v])"
proof -
  let ?ps = "concat (map (\<lambda>j. map (\<lambda>i. (i, j)) [0 ..< nrows m]) [0 ..< ncols m])"
  have mem: "(i, j) \<in> set ?ps" using assms by (auto simp add: image_iff)
  have e: "entries (tocsc m) = sum_duplicates ?ps m" by (simp add: tocsc_def)
  have "sp_at (tocsc m) i j
      = map (\<lambda>e. snd (snd e)) (filter (\<lambda>e. fst e = i \<and> fst (snd e) = j) (sum_duplicates ?ps m))"
    by (simp only: sp_at_def e)
  also have "\<dots> = (case sum_dups (sp_at m i j) of None \<Rightarrow> [] | Some v \<Rightarrow> [v])"
    using sp_at_sum_duplicates [OF positions_by_column, of i j "nrows m" "ncols m" m] mem
    by (simp only: if_True)
  finally show ?thesis .
qed

text \<open>A column index that occurs once in a row selects the one coefficient given for it.\<close>

lemma filter_zip_unique:
  "k < length xs \<Longrightarrow> length ys = length xs \<Longrightarrow>
   (\<forall>k'<length xs. xs ! k' = xs ! k \<longrightarrow> k' = k) \<Longrightarrow>
   map snd (filter (\<lambda>p. fst p = xs ! k) (zip xs ys)) = [ys ! k]"
proof (induction xs arbitrary: ys k)
  case Nil
  then show ?case by simp
next
  case (Cons x xs)
  then obtain y ys' where ys: "ys = y # ys'" and l: "length ys' = length xs" by (cases ys) auto
  show ?case
  proof (cases k)
    case 0
    have "x \<notin> set xs"
    proof
      assume "x \<in> set xs"
      then obtain k' where "k' < length xs" "xs ! k' = x" by (auto simp add: in_set_conv_nth)
      with Cons.prems(3) [rule_format, of "Suc k'"] 0 show False by simp
    qed
    then have "filter (\<lambda>p. fst p = x) (zip xs ys') = []"
      by (auto simp add: filter_empty_conv dest: set_zip_leftD)
    with 0 ys show ?thesis by simp
  next
    case (Suc k')
    from Cons.prems(3) [rule_format, of 0] Suc have ne: "x \<noteq> xs ! k'" by auto
    have u: "\<forall>k''<length xs. xs ! k'' = xs ! k' \<longrightarrow> k'' = k'"
    proof (intro allI impI)
      fix k'' assume "k'' < length xs" "xs ! k'' = xs ! k'"
      with Cons.prems(3) [rule_format, of "Suc k''"] Suc show "k'' = k'" by simp
    qed
    from Cons.prems(1) Suc have "k' < length xs" by simp
    from Cons.IH [OF this l u] ne Suc ys show ?thesis by simp
  qed
qed

lemma at_column_unique:
  assumes "k < length cols" and "length row = length cols"
    and "\<forall>k'<length cols. cols ! k' = cols ! k \<longrightarrow> k' = k" and "0 \<le> cols ! k"
  shows "at_column cols row (nat (cols ! k)) = [row ! k]"
  using filter_zip_unique [OF assms(1,2,3)] assms(4) by (simp add: at_column_def)

lemma unique_name_fresh:
  "unique_name keys base name = Some (Inr name') \<Longrightarrow> name' \<notin> set keys"
proof -
  assume u: "unique_name keys base name = Some (Inr name')"
  have "\<forall>n'. (Inr name' :: error + string) = Inr n' \<longrightarrow> n' \<notin> set keys"
  proof (rule unique_name.raw_induct [where P = "\<lambda>keys base name y.
        \<forall>n'. y = Inr n' \<longrightarrow> n' \<notin> set keys", OF _ u])
    fix f keys base name y
    assume IH: "\<And>k bb n y'. f k bb n = Some y' \<Longrightarrow> \<forall>n'. y' = Inr n' \<longrightarrow> n' \<notin> set k"
      and step: "(if name \<in> set keys then
        (if CHR ''_'' \<in> set name then
           (case split_on CHR ''_'' name of
              p0 # p1 # ps \<Rightarrow>
                (case py_int p1 of
                   None \<Rightarrow> Some (Inl ValueError)
                 | Some k \<Rightarrow> f keys base (base @ ''_'' @ str_of_int (k + 1)))
            | _ \<Rightarrow> Some (Inl IndexError))
         else f keys base (base @ ''_'' @ str_of_int 0))
      else Some (Inr name)) = Some y"
    show "\<forall>n'. y = Inr n' \<longrightarrow> n' \<notin> set keys"
      using step IH by (auto split: if_splits list.splits option.splits)
  qed
  then show ?thesis by simp
qed

lemma dict_set_fresh: "k \<notin> set (map fst ps) \<Longrightarrow> dict_set k v ps = ps @ [(k, v)]"
  by (induction ps) auto

lemma concat_bound:
  "list_all (\<lambda>r. length r \<le> C) rows \<Longrightarrow> length (concat rows) \<le> length rows * C"
  by (induction rows) auto

lemma rows_full:
  "list_all (\<lambda>r. length r \<le> C) rows \<Longrightarrow> length (concat rows) = length rows * C \<Longrightarrow>
   list_all (\<lambda>r. length r = C) rows"
proof (induction rows)
  case Nil
  then show ?case by simp
next
  case (Cons r rs)
  from Cons.prems(1) have r: "length r \<le> C" and rs: "list_all (\<lambda>r. length r \<le> C) rs" by simp_all
  from concat_bound [OF rs] have b: "length (concat rs) \<le> length rs * C" .
  from Cons.prems(2) have "length r + length (concat rs) = C + length rs * C" by simp
  with r b have "length r = C" "length (concat rs) = length rs * C" by linarith+
  with Cons.IH [OF rs] show ?case by simp
qed

lemma row_index_length: "length (row_index n C) = n * C"
  by (induction n) (simp_all add: row_index_def)

lemma rows2_row_length: "i < R \<Longrightarrow> length (rows2 R C xs ! i) \<le> C"
  by (simp add: rows2_def)

lemma rows2_full_length:
  assumes "length xs = R * C" and "i < R"
  shows "length (rows2 R C xs ! i) = C"
proof -
  from assms(2) have "Suc i * C \<le> R * C" by (intro mult_le_mono1) simp
  then have "C \<le> R * C - i * C" by simp
  with assms show ?thesis by (simp add: rows2_def)
qed

lemma normalise_rows_row_length:
  assumes "normalise_rows linalg_norm A B = (A', B')" and "i < length A"
  shows "length (A' ! i) = length (A ! i)"
  using normalise_rows_nth(1) [OF assms] by (simp add: Let_def)

text \<open>
  C6, as amended. For a block accepted by \<^verbatim>\<open>add_constraints_to_least_squares\<close> (the
  shapes of \<^verbatim>\<open>A\<close> and \<^verbatim>\<open>idc\<close> agree and the call returns), with \<open>n\<close> rows of \<open>C\<close>
  coefficients after flattening, and for any function \<open>linalg_norm\<close> that computes the
  norm of a row: the block is appended to the registry under a name that was free, its
  matrix has all \<open>n\<close> rows, and its right-hand side is as long as the one given. For every
  row \<open>i\<close>, with \<open>l\<close> the norm computed for it: the right-hand side is divided by \<open>l\<close> if
  \<open>l > 0\<close> and left as it is otherwise; the coefficients are first replaced by zeros if
  one of them is NaN, and then divided by \<open>l\<close> if \<open>l > 0\<close> and left as they are otherwise
  (so a row of zeros stays a row of zeros, and no row is dropped). The stored matrix holds
  at position \<open>(i, j)\<close> the sum of the coefficients so obtained that were given for column
  \<open>j\<close>; in particular a column index that occurs once in the row holds the one
  coefficient given for it. Nothing is said of the norm of the stored row: it need not be
  one.
\<close>

theorem accepted_rows_divided_by_norm:
  assumes acc: "add_constraints_to_least_squares linalg_norm A B idc wt name s = Some (Inr s')"
    and sh: "shape idc = shape A"
    and fb: "flatten_block (shape A) (length B) wt = Inr (n, C, wt')"
  shows "\<exists>name' blk. name' \<notin> set (map fst (constraints s))
     \<and> constraints s' = constraints s @ [(name', blk)]
     \<and> nrows (matrix blk) = n \<and> ncols (matrix blk) = nx s \<and> length (b blk) = length B
     \<and> (\<forall>i<n. let row = rows2 n C (data A) ! i;
                   cols = rows2 n C (data idc) ! i;
                   l = linalg_norm row;
                   row0 = (if list_ex isnan row then map (\<lambda>x. Fin 0) row else row);
                   row' = (if fgt0 l then map (\<lambda>x. fdiv x l) row0 else row0)
               in length row = C \<and> length cols = C
                \<and> b blk ! i = (if fgt0 l then fdiv (B ! i) l else B ! i)
                \<and> (\<forall>j<nx s. sp_at (matrix blk) i j =
                      (case sum_dups (at_column cols row' j) of None \<Rightarrow> [] | Some v \<Rightarrow> [v]))
                \<and> (\<forall>k<C. (\<forall>k'<C. cols ! k' = cols ! k \<longrightarrow> k' = k) \<longrightarrow>
                      sp_at (matrix blk) i (nat (cols ! k)) = [row' ! k]))"
proof -
  from add_constraints_inv [OF acc sh] fb obtain A' B' ws name' m where
    lb: "n = 0 \<or> length B = n"
    and nr: "normalise_rows linalg_norm (rows2 n C (data A)) B = (A', B')"
    and un: "unique_name (map fst (constraints s)) name name = Some (Inr name')"
    and coo: "coo_matrix (concat A') (row_index n C) (data idc) (n, nx s) = Inr m"
    and s': "s' = (warn_nan name (data idc) A' B' s)
        \<lparr>constraints := dict_set name' \<lparr>matrix = tocsc m, b = B', w = ws\<rparr> (constraints s)\<rparr>"
    by auto
  let ?rows = "rows2 n C (data A)"
  let ?blk = "\<lparr>matrix = tocsc m, b = B', w = ws\<rparr>"
  have lA: "length ?rows = n" by simp
  from normalise_rows_length [OF nr] have lA': "length A' = n" and lB': "length B' = length B"
    by simp_all
  have fresh: "name' \<notin> set (map fst (constraints s))" by (rule unique_name_fresh [OF un])
  have cs: "constraints s' = constraints s @ [(name', ?blk)]"
    by (simp add: s' dict_set_fresh [OF fresh])
  have rl: "length (A' ! i) = length (?rows ! i)" if "i < n" for i
    using normalise_rows_row_length [OF nr] that by simp
  have "list_all (\<lambda>r. length r \<le> C) A'"
    unfolding list_all_length using rl rows2_row_length [of _ n C "data A"] lA' by simp
  moreover from coo have lcat: "length (concat A') = length A' * C"
    by (auto simp add: coo_matrix_def row_index_length lA' split: if_splits)
  ultimately have full: "list_all (\<lambda>r. length r = C) A'" by (rule rows_full)
  from coo lcat have lidc: "length (data idc) = n * C"
    by (auto simp add: coo_matrix_def lA' split: if_splits)
  from coo have coo': "coo_matrix (concat A') (row_index (length A') C) (data idc) (length A', nx s) = Inr m"
    by (simp add: lA')
  from coo have shape_m: "nrows m = n" "ncols m = nx s"
    by (simp_all add: coo_matrix_shape)
  from coo have nonneg: "\<forall>c\<in>set (data idc). 0 \<le> c"
    by (auto simp add: coo_matrix_def list_ex_iff not_less split: if_splits)
  have row_i: "(let row = ?rows ! i;
                   cols = rows2 n C (data idc) ! i;
                   l = linalg_norm row;
                   row0 = (if list_ex isnan row then map (\<lambda>x. Fin 0) row else row);
                   row' = (if fgt0 l then map (\<lambda>x. fdiv x l) row0 else row0)
               in length row = C \<and> length cols = C
                \<and> B' ! i = (if fgt0 l then fdiv (B ! i) l else B ! i)
                \<and> (\<forall>j<nx s. sp_at (tocsc m) i j =
                      (case sum_dups (at_column cols row' j) of None \<Rightarrow> [] | Some v \<Rightarrow> [v]))
                \<and> (\<forall>k<C. (\<forall>k'<C. cols ! k' = cols ! k \<longrightarrow> k' = k) \<longrightarrow>
                      sp_at (tocsc m) i (nat (cols ! k)) = [row' ! k]))" if i: "i < n" for i
  proof -
    let ?row = "?rows ! i"
    let ?cols = "rows2 n C (data idc) ! i"
    let ?l = "linalg_norm ?row"
    let ?zeroed = "if list_ex isnan ?row then map (\<lambda>x. Fin 0) ?row else ?row"
    let ?row' = "if fgt0 ?l then map (\<lambda>x. fdiv x ?l) ?zeroed else ?zeroed"
    from i have i': "i < length ?rows" by simp
    from i lb have iB: "i < length B" by auto
    have A'i: "A' ! i = ?row'"
      using normalise_rows_nth(1) [OF nr i'] by (simp add: Let_def)
    have B'i: "B' ! i = (if fgt0 ?l then fdiv (B ! i) ?l else B ! i)"
      by (rule normalise_rows_nth(2) [OF nr i' iB])
    have lrow': "length ?row' = C"
      using full i lA' unfolding A'i [symmetric] by (simp add: list_all_length)
    then have lrow: "length ?row = C" by (simp split: if_splits)
    have lcols: "length ?cols = C" by (rule rows2_full_length [OF lidc i])
    have cols: "?cols = take C (drop (i * C) (data idc))"
      using i by (simp add: rows2_def)
    have coo_i: "sp_at m i j = at_column ?cols ?row' j" for j
      using coo_rows [OF coo' full, of i j] i lA' unfolding cols A'i by simp
    have at: "sp_at (tocsc m) i j =
        (case sum_dups (at_column ?cols ?row' j) of None \<Rightarrow> [] | Some v \<Rightarrow> [v])" if "j < nx s" for j
      using sp_at_tocsc [of i m j] i that shape_m by (simp add: coo_i)
    have uniq: "sp_at (tocsc m) i (nat (?cols ! k)) = [?row' ! k]"
      if k: "k < C" and u: "\<forall>k'<C. ?cols ! k' = ?cols ! k \<longrightarrow> k' = k" for k
    proof -
      have mem: "?cols ! k \<in> set (data idc)"
      proof -
        have "?cols ! k \<in> set ?cols" using k lcols by simp
        then show ?thesis unfolding cols by (auto dest!: in_set_takeD in_set_dropD)
      qed
      with nonneg have ge: "0 \<le> ?cols ! k" by blast
      from coo mem have "?cols ! k < int (nx s)"
        by (auto simp add: coo_matrix_def list_ex_iff not_le split: if_splits)
      with ge have lt: "nat (?cols ! k) < nx s" by simp
      have "at_column ?cols ?row' (nat (?cols ! k)) = [?row' ! k]"
        by (rule at_column_unique) (use k u lcols lrow' ge in simp_all)
      with at [OF lt] show ?thesis by simp
    qed
    from lrow lcols B'i at uniq show ?thesis unfolding Let_def by blast
  qed
  have "name' \<notin> set (map fst (constraints s))
     \<and> constraints s' = constraints s @ [(name', ?blk)]
     \<and> nrows (matrix ?blk) = n \<and> ncols (matrix ?blk) = nx s \<and> length (b ?blk) = length B
     \<and> (\<forall>i<n. let row = rows2 n C (data A) ! i;
                   cols = rows2 n C (data idc) ! i;
                   l = linalg_norm row;
                   row0 = (if list_ex isnan row then map (\<lambda>x. Fin 0) row else row);
                   row' = (if fgt0 l then map (\<lambda>x. fdiv x l) row0 else row0)
               in length row = C \<and> length cols = C
                \<and> b ?blk ! i = (if fgt0 l then fdiv (B ! i) l else B ! i)
                \<and> (\<forall>j<nx s. sp_at (matrix ?blk) i j =
                      (case sum_dups (at_column cols row' j) of None \<Rightarrow> [] | Some v \<Rightarrow> [v]))
                \<and> (\<forall>k<C. (\<forall>k'<C. cols ! k' = cols ! k \<longrightarrow> k' = k) \<longrightarrow>
                      sp_at (matrix ?blk) i (nat (cols ! k)) = [row' ! k]))"
    using fresh cs shape_m lB' row_i by simp
  then show ?thesis by blast
qed

text \<open>
  The witness: the row \<open>(0, 2)\<close> on the columns \<open>0\<close> and \<open>1\<close>, with right-hand side
  \<open>4\<close>, has norm \<open>2\<close> and is stored as \<open>(0, 1)\<close> with right-hand side \<open>2\<close>; the row
  of zeros on the columns \<open>1\<close> and \<open>2\<close> is kept, with its right-hand side \<open>3\<close>.
\<close>

lemma norm_rows: "rows2 2 2 (data norm_A) = [[Fin 0, Fin 2], [Fin 0, Fin 0]]"
  by (simp add: rows2_def norm_A_def upt_rec)

lemma norm_cols: "rows2 2 2 (data norm_idc) = [[0, 1], [1, 2]]"
  by (simp add: rows2_def norm_idc_def upt_rec)

lemma row_norm_02: "row_norm [Fin 0, Fin 2] = Fin 2"
  by (simp add: row_norm_def)

lemma row_norm_00: "row_norm [Fin 0, Fin 0] = Fin 0"
  by (simp add: row_norm_def)

lemma norm_normalised:
  "normalise_rows row_norm [[Fin 0, Fin 2], [Fin 0, Fin 0]] [Fin 4, Fin 3]
     = ([[Fin 0, Fin 1], [Fin 0, Fin 0]], [Fin 2, Fin 3])"
  by (simp add: normalise_rows_def Let_def row_norm_02 row_norm_00)

lemma norm_flatten:
  "flatten_block (shape norm_A) (length [Fin 4, Fin 3]) (WScalar (Fin 1)) = Inr (2, 2, WScalar (Fin 1))"
  by (simp add: flatten_block_def norm_A_def)

lemma tocsc_norm:
  "tocsc \<lparr>nrows = 2, ncols = 3,
          entries = [(0, 0, Fin 0), (0, Suc 0, Fin 1), (Suc 0, Suc 0, Fin 0), (Suc 0, 2, Fin 0)]\<rparr>
     = \<lparr>nrows = 2, ncols = 3,
        entries = [(0, 0, Fin 0), (0, Suc 0, Fin 1), (Suc 0, Suc 0, Fin 0), (Suc 0, 2, Fin 0)]\<rparr>"
  by (simp add: tocsc_def sum_duplicates_def sp_at_def upt_rec numeral_2_eq_2 numeral_3_eq_3)

lemma add_norm:
  "add_constraints_to_least_squares row_norm norm_A [Fin 4, Fin 3] norm_idc (WScalar (Fin 1)) ''norm'' s_fresh
     = Some (Inr s_norm)"
proof -
  have "add_constraints_to_least_squares row_norm norm_A [Fin 4, Fin 3] norm_idc (WScalar (Fin 1)) ''norm'' s_fresh
    = Some (Inr ((warn_nan ''norm'' (data norm_idc) [[Fin 0, Fin 1], [Fin 0, Fin 0]] [Fin 2, Fin 3] s_fresh)
        \<lparr>constraints := dict_set ''norm''
            \<lparr>matrix = tocsc \<lparr>nrows = 2, ncols = 3,
                       entries = [(0, 0, Fin 0), (0, 1, Fin 1), (1, 1, Fin 0), (1, 2, Fin 0)]\<rparr>,
             b = [Fin 2, Fin 3], w = [Fin 1, Fin 1]\<rparr> (constraints s_fresh)\<rparr>))"
  proof (rule add_constraints_step [where n = 2 and C = 2 and wt' = "WScalar (Fin 1)"])
    show "flatten_block (shape norm_A) (length [Fin 4, Fin 3]) (WScalar (Fin 1)) = Inr (2, 2, WScalar (Fin 1))"
      by (rule norm_flatten)
    show "shape norm_idc = shape norm_A" by (simp add: norm_idc_def norm_A_def)
    show "2 = (0::nat) \<or> length [Fin 4, Fin 3] = 2" by simp
    show "normalise_rows row_norm (rows2 2 2 (data norm_A)) [Fin 4, Fin 3]
        = ([[Fin 0, Fin 1], [Fin 0, Fin 0]], [Fin 2, Fin 3])"
      by (simp only: norm_rows norm_normalised)
    show "weight_array (WScalar (Fin 1)) 2 = Inr [Fin 1, Fin 1]"
      by (simp add: weight_array_def ebind_def numeral_2_eq_2)
    show "unique_name (map fst (constraints s_fresh)) ''norm'' ''norm'' = Some (Inr ''norm'')"
      by (simp add: unique_name_free constraints_s_fresh)
    show "coo_matrix (concat [[Fin 0, Fin 1], [Fin 0, Fin 0]]) (row_index 2 2) (data norm_idc) (2, nx s_fresh)
      = Inr \<lparr>nrows = 2, ncols = 3,
             entries = [(0, 0, Fin 0), (0, 1, Fin 1), (1, 1, Fin 0), (1, 2, Fin 0)]\<rparr>"
      by (simp add: coo_matrix_def row_index_def norm_idc_def nx_s_fresh upt_rec numeral_2_eq_2)
  qed
  then show ?thesis
    by (simp add: warn_nan_def list_ex_iff constraints_s_fresh s_norm_def tocsc_norm)
qed

theorem accepted_rows_divided_by_norm_witness:
  "add_constraints_to_least_squares row_norm norm_A [Fin 4, Fin 3] norm_idc (WScalar (Fin 1)) ''norm'' s_fresh
     = Some (Inr s_norm)
   \<and> shape norm_idc = shape norm_A
   \<and> flatten_block (shape norm_A) (length [Fin 4, Fin 3]) (WScalar (Fin 1)) = Inr (2, 2, WScalar (Fin 1))
   \<and> rows2 2 2 (data norm_A) = [[Fin 0, Fin 2], [Fin 0, Fin 0]]
   \<and> rows2 2 2 (data norm_idc) = [[0, 1], [1, 2]]
   \<and> row_norm [Fin 0, Fin 2] = Fin 2 \<and> row_norm [Fin 0, Fin 0] = Fin 0
   \<and> (\<exists>name' blk. constraints s_norm = constraints s_fresh @ [(name', blk)]
         \<and> nrows (matrix blk) = 2 \<and> ncols (matrix blk) = 3 \<and> length (b blk) = 2
         \<and> b blk ! 0 = Fin 2 \<and> b blk ! 1 = Fin 3
         \<and> sp_at (matrix blk) 0 0 = [Fin 0] \<and> sp_at (matrix blk) 0 1 = [Fin 1]
         \<and> sp_at (matrix blk) 0 2 = []
         \<and> sp_at (matrix blk) 1 0 = [] \<and> sp_at (matrix blk) 1 1 = [Fin 0]
         \<and> sp_at (matrix blk) 1 2 = [Fin 0])"
proof -
  have sh: "shape norm_idc = shape norm_A" by (simp add: norm_idc_def norm_A_def)
  from accepted_rows_divided_by_norm [OF add_norm sh norm_flatten]
  obtain name' blk where cs: "constraints s_norm = constraints s_fresh @ [(name', blk)]"
    and nr: "nrows (matrix blk) = 2" "ncols (matrix blk) = nx s_fresh"
      "length (b blk) = length [Fin 4, Fin 3 :: fl]"
    and rows: "\<forall>i<2. let row = rows2 2 2 (data norm_A) ! i;
                   cols = rows2 2 2 (data norm_idc) ! i;
                   l = row_norm row;
                   row0 = (if list_ex isnan row then map (\<lambda>x. Fin 0) row else row);
                   row' = (if fgt0 l then map (\<lambda>x. fdiv x l) row0 else row0)
               in length row = 2 \<and> length cols = 2
                \<and> b blk ! i = (if fgt0 l then fdiv ([Fin 4, Fin 3] ! i) l else [Fin 4, Fin 3] ! i)
                \<and> (\<forall>j<nx s_fresh. sp_at (matrix blk) i j =
                      (case sum_dups (at_column cols row' j) of None \<Rightarrow> [] | Some v \<Rightarrow> [v]))
                \<and> (\<forall>k<2. (\<forall>k'<2. cols ! k' = cols ! k \<longrightarrow> k' = k) \<longrightarrow>
                      sp_at (matrix blk) i (nat (cols ! k)) = [row' ! k])"
    by blast
  from rows [THEN spec, of 0]
  have r0: "b blk ! 0 = Fin 2
      \<and> (\<forall>j<3. sp_at (matrix blk) 0 j =
            (case sum_dups (at_column [0, 1] [Fin 0, Fin 1] j) of None \<Rightarrow> [] | Some v \<Rightarrow> [v]))"
    by (simp add: norm_rows norm_cols row_norm_02 nx_s_fresh Let_def)
  from rows [THEN spec, of 1]
  have r1: "b blk ! 1 = Fin 3
      \<and> (\<forall>j<3. sp_at (matrix blk) 1 j =
            (case sum_dups (at_column [1, 2] [Fin 0, Fin 0] j) of None \<Rightarrow> [] | Some v \<Rightarrow> [v]))"
    by (simp add: norm_rows norm_cols row_norm_00 nx_s_fresh Let_def)
  from r0 have a0: "sp_at (matrix blk) 0 0 = [Fin 0] \<and> sp_at (matrix blk) 0 1 = [Fin 1]
      \<and> sp_at (matrix blk) 0 2 = []"
    by (simp add: at_column_def)
  from r1 have a1: "sp_at (matrix blk) 1 0 = [] \<and> sp_at (matrix blk) 1 1 = [Fin 0]
      \<and> sp_at (matrix blk) 1 2 = [Fin 0]"
    by (simp add: at_column_def)
  from add_norm sh norm_flatten norm_rows norm_cols row_norm_02 row_norm_00 cs nr r0 r1 a0 a1
  show ?thesis by (simp add: nx_s_fresh)
qed

text \<open>
  C6 as stated fails when two coefficients of a row fall on the same column. The row
  \<open>(1, 1, 1, 1)\<close> has norm \<open>2\<close> and is divided to \<open>(1/2, 1/2, 1/2, 1/2)\<close>; with the
  column index \<open>1\<close> four times, the stored matrix adds the four halves, so the row it
  holds is \<open>(0, 2, 0)\<close>, of norm \<open>2\<close> and not \<open>1\<close>. Every operation here is exact in
  \<^verbatim>\<open>float64\<close>.
\<close>

lemma dup_rows: "rows2 1 4 (data dup_A) = [[Fin 1, Fin 1, Fin 1, Fin 1]]"
  by (simp add: rows2_def dup_A_def)

lemma row_norm_1111: "row_norm [Fin 1, Fin 1, Fin 1, Fin 1] = Fin 2"
  by (simp add: row_norm_def)

lemma row_norm_020: "row_norm [Fin 0, Fin 2, Fin 0] = Fin 2"
  by (simp add: row_norm_def)

lemma dup_normalised:
  "normalise_rows row_norm [[Fin 1, Fin 1, Fin 1, Fin 1]] [Fin 2]
     = ([[Fin (1 / 2), Fin (1 / 2), Fin (1 / 2), Fin (1 / 2)]], [Fin 1])"
  by (simp add: normalise_rows_def Let_def row_norm_1111)

lemma tocsc_dup:
  "tocsc \<lparr>nrows = 1, ncols = 3,
          entries = [(0, 1, Fin (1 / 2)), (0, 1, Fin (1 / 2)), (0, 1, Fin (1 / 2)), (0, 1, Fin (1 / 2))]\<rparr>
     = \<lparr>nrows = 1, ncols = 3, entries = [(0, 1, Fin 2)]\<rparr>"
  by (simp add: tocsc_def sum_duplicates_def sp_at_def upt_rec numeral_3_eq_3)

lemma toarray_dup:
  "toarray_row \<lparr>nrows = 1, ncols = 3, entries = [(0, 1, Fin 2)]\<rparr> 0 = [Fin 0, Fin 2, Fin 0]"
  by (simp add: toarray_row_def sp_at_def upt_rec numeral_3_eq_3)

lemma add_dup:
  "add_constraints_to_least_squares row_norm dup_A [Fin 2] dup_idc (WScalar (Fin 1)) ''dup'' s_fresh
     = Some (Inr s_dup)"
proof -
  let ?h = "Fin (1 / 2)"
  have "add_constraints_to_least_squares row_norm dup_A [Fin 2] dup_idc (WScalar (Fin 1)) ''dup'' s_fresh
    = Some (Inr ((warn_nan ''dup'' (data dup_idc) [[?h, ?h, ?h, ?h]] [Fin 1] s_fresh)
        \<lparr>constraints := dict_set ''dup''
            \<lparr>matrix = tocsc \<lparr>nrows = 1, ncols = 3,
                       entries = [(0, 1, ?h), (0, 1, ?h), (0, 1, ?h), (0, 1, ?h)]\<rparr>,
             b = [Fin 1], w = [Fin 1]\<rparr> (constraints s_fresh)\<rparr>))"
  proof (rule add_constraints_step [where n = 1 and C = 4 and wt' = "WScalar (Fin 1)"])
    show "flatten_block (shape dup_A) (length [Fin 2]) (WScalar (Fin 1)) = Inr (1, 4, WScalar (Fin 1))"
      by (simp add: flatten_block_def dup_A_def)
    show "shape dup_idc = shape dup_A" by (simp add: dup_idc_def dup_A_def)
    show "1 = (0::nat) \<or> length [Fin 2] = 1" by simp
    show "normalise_rows row_norm (rows2 1 4 (data dup_A)) [Fin 2] = ([[?h, ?h, ?h, ?h]], [Fin 1])"
      by (simp only: dup_rows dup_normalised)
    show "weight_array (WScalar (Fin 1)) 1 = Inr [Fin 1]"
      by (simp add: weight_array_def ebind_def)
    show "unique_name (map fst (constraints s_fresh)) ''dup'' ''dup'' = Some (Inr ''dup'')"
      by (simp add: unique_name_free constraints_s_fresh)
    show "coo_matrix (concat [[?h, ?h, ?h, ?h]]) (row_index 1 4) (data dup_idc) (1, nx s_fresh)
      = Inr \<lparr>nrows = 1, ncols = 3, entries = [(0, 1, ?h), (0, 1, ?h), (0, 1, ?h), (0, 1, ?h)]\<rparr>"
      by (simp add: coo_matrix_def row_index_def dup_idc_def nx_s_fresh numeral_eq_Suc)
  qed
  then show ?thesis
    by (simp only: tocsc_dup) (simp add: warn_nan_def list_ex_iff constraints_s_fresh s_dup_def)
qed

theorem duplicate_columns_not_unit_norm:
  "add_constraints_to_least_squares row_norm dup_A [Fin 2] dup_idc (WScalar (Fin 1)) ''dup'' s_fresh
     = Some (Inr s_dup)
   \<and> rows2 1 4 (data dup_A) = [[Fin 1, Fin 1, Fin 1, Fin 1]]
   \<and> row_norm [Fin 1, Fin 1, Fin 1, Fin 1] = Fin 2
   \<and> map snd (constraints s_dup) =
       [\<lparr>matrix = \<lparr>nrows = 1, ncols = 3, entries = [(0, 1, Fin 2)]\<rparr>, b = [Fin 1], w = [Fin 1]\<rparr>]
   \<and> toarray_row \<lparr>nrows = 1, ncols = 3, entries = [(0, 1, Fin 2)]\<rparr> 0 = [Fin 0, Fin 2, Fin 0]
   \<and> row_norm [Fin 0, Fin 2, Fin 0] = Fin 2"
  using add_dup dup_rows row_norm_1111 toarray_dup row_norm_020 by (simp add: s_dup_def)

end
